theory Spec2Isabelle
  imports Complex_Main "HOL-Library.Log_Nat"
begin

section \<open>Points, quadratures and contract violations\<close>

text \<open>
  In this first part the C++ type \<open>double\<close> is read as the exact real numbers: it is
  about the arithmetic the code writes down, and carries the statements that do not
  depend on rounding. The statements about the exact value that is returned are made
  over the rounded arithmetic of the section on binary64.
  A \<open>Point<N>\<close> is the list of its \<open>N\<close> coordinates.
\<close>

type_synonym point = "real list"

text \<open>\<open>Point<spacedim>()\<close>: the default constructor, all coordinates zero.\<close>

definition Point :: "nat \<Rightarrow> point" where
  "Point spacedim = replicate spacedim 0"

text \<open>\<open>p += q\<close> and \<open>p + q\<close> on points: coordinate by coordinate.\<close>

definition point_add :: "point \<Rightarrow> point \<Rightarrow> point" where
  "point_add p q = map2 (+) p q"

text \<open>\<open>p * w\<close>: every coordinate times the scalar.\<close>

definition point_scale :: "point \<Rightarrow> real \<Rightarrow> point" where
  "point_scale p w = map (\<lambda>x. x * w) p"

text \<open>\<open>p.norm()\<close>: the Euclidean length.\<close>

definition norm_point :: "point \<Rightarrow> real" where
  "norm_point p = sqrt (sum_list (map (\<lambda>x. x * x) p))"

text \<open>The exceptions named in \<open>manifold.cc\<close>.\<close>

datatype error =
    ExcPureFunctionCalled
  | ExcImpossibleInDim nat
  | ExcInternalError
  | ExcDimensionMismatch nat nat
  | ExcMessage string

text \<open>
  Modelled from the spec: the macro \<open>Assert (cond, exc)\<close> (declared in
  \<open>deal.II/base/exceptions.h\<close>, which is not among the sources). The specification
  makes every failed assertion a contract violation that aborts the point-placement
  computation in progress; so a failed \<open>Assert\<close> is the result \<open>Inl exc\<close> and the
  statements after it are not reached. The blocks under \<open>#ifdef DEBUG\<close> are in the
  source itself and are governed by the flag \<open>DEBUG\<close> passed to the functions below.
\<close>

definition Assert :: "bool \<Rightarrow> error \<Rightarrow> (error + 'a) \<Rightarrow> error + 'a" where
  "Assert cond exc rest = (if cond then rest else Inl exc)"

text \<open>
  Modelled from the spec: the class \<open>Quadrature<N>\<close> (its header is not among the
  sources) is a sequence of sample points and a sequence of weights, aligned by position.
\<close>

record quadrature =
  get_points :: "point list"
  get_weights :: "real list"

definition Quadrature :: "point list \<Rightarrow> real list \<Rightarrow> quadrature" where
  "Quadrature sp wp = \<lparr>get_points = sp, get_weights = wp\<rparr>"

text \<open>The data-model invariants of a \<open>Quadrature<spacedim>\<close>.\<close>

definition aligned :: "nat \<Rightarrow> quadrature \<Rightarrow> bool" where
  "aligned spacedim quad \<longleftrightarrow>
     length (get_weights quad) = length (get_points quad) \<and>
     list_all (\<lambda>p. length p = spacedim) (get_points quad)"

definition tolerance :: real where
  "tolerance = 1 / 10 ^ 10"

section \<open>Manifold\<close>

text \<open>\<open>Manifold::project_to_manifold\<close>: the base class has no projection.\<close>

definition Manifold_project_to_manifold ::
  "nat \<Rightarrow> point list \<Rightarrow> point \<Rightarrow> error + point" where
  "Manifold_project_to_manifold spacedim surrounding_points candidate =
     Assert False ExcPureFunctionCalled (Inr (Point spacedim))"

text \<open>\<open>FlatManifold::project_to_manifold\<close>: the candidate, unchanged.\<close>

definition FlatManifold_project_to_manifold :: "point list \<Rightarrow> point \<Rightarrow> error + point" where
  "FlatManifold_project_to_manifold vertices candidate = Inr candidate"

text \<open>
  The block under \<open>#ifdef DEBUG\<close> at the top of both \<open>get_new_point\<close> functions:
  the loop that adds up the weights and the assertion on the sum. Without \<open>DEBUG\<close>
  the block is absent and the rest of the function runs at once.
\<close>

definition weights_sum :: "real list \<Rightarrow> real" where
  "weights_sum weights = fold (\<lambda>i sum. sum + weights ! i) [0..<length weights] 0"

definition check_weights :: "bool \<Rightarrow> real list \<Rightarrow> (error + 'a) \<Rightarrow> error + 'a" where
  "check_weights DEBUG weights rest =
     (if DEBUG
      then Assert (\<bar>weights_sum weights - 1\<bar> < tolerance)
             (ExcMessage ''Weights should sum to 1!'') rest
      else rest)"

text \<open>
  \<open>Manifold::get_new_point\<close>. The virtual \<open>project_to_manifold\<close> of the object the
  method runs on is the parameter \<open>project_to_manifold\<close>.
\<close>

definition Manifold_get_new_point ::
  "bool \<Rightarrow> nat \<Rightarrow> (point list \<Rightarrow> point \<Rightarrow> error + point) \<Rightarrow> quadrature \<Rightarrow> error + point" where
  "Manifold_get_new_point DEBUG spacedim project_to_manifold quad =
     (let surrounding_points = get_points quad;
          weights = get_weights quad
      in check_weights DEBUG weights
           (let p = fold (\<lambda>i p. point_add p (point_scale (surrounding_points ! i) (weights ! i)))
                      [0..<length surrounding_points] (Point spacedim)
            in project_to_manifold surrounding_points p))"

text \<open>
  The weighted centroid as the specification writes it: on every axis \<open>d\<close> the sum of
  \<open>weight\<^sub>i \<cdot> sample\<^sub>i\<close> over the samples.
\<close>

definition weighted_sum_on_axis :: "quadrature \<Rightarrow> nat \<Rightarrow> real" where
  "weighted_sum_on_axis quad d =
     sum_list (map (\<lambda>i. get_weights quad ! i * (get_points quad ! i ! d))
       [0..<length (get_points quad)])"

definition weighted_centroid :: "nat \<Rightarrow> quadrature \<Rightarrow> point" where
  "weighted_centroid spacedim quad = map (weighted_sum_on_axis quad) [0..<spacedim]"

section \<open>Mesh entities and the default quadratures\<close>

text \<open>
  Modelled from the spec: the accessor types behind \<open>line_iterator\<close>,
  \<open>quad_iterator\<close> and \<open>hex_iterator\<close> (\<open>tria_accessor.h\<close> is not among the
  sources). An entity exposes its vertices, its lines and faces, whether it has refined
  children, its children and its center. The builders read nothing of a child but a
  vertex, so \<open>child(c)->vertex(v)\<close> is the single observation \<open>child_vertex c v\<close>, and
  \<open>isotropic_child(c)->vertex(v)\<close> is \<open>isotropic_child_vertex c v\<close>. The constant
  \<open>AccessorType::space_dimension\<close> is the field \<open>space_dimension\<close>.
\<close>

record line_accessor =
  line_space_dimension :: nat
  line_vertex :: "nat \<Rightarrow> point"
  line_has_children :: bool
  line_child_vertex :: "nat \<Rightarrow> nat \<Rightarrow> point"
  line_center :: point

record quad_accessor =
  quad_space_dimension :: nat
  quad_vertex :: "nat \<Rightarrow> point"
  quad_line :: "nat \<Rightarrow> line_accessor"
  quad_has_children :: bool
  quad_isotropic_child_vertex :: "nat \<Rightarrow> nat \<Rightarrow> point"
  quad_center :: point

record hex_accessor =
  hex_vertex :: "nat \<Rightarrow> point"
  hex_line :: "nat \<Rightarrow> line_accessor"
  hex_face :: "nat \<Rightarrow> quad_accessor"

text \<open>
  The template parameter \<open>OBJECT\<close> and the iterator arguments of the entity queries:
  an iterator to a vertex, a line, a quad or a hex.
\<close>

datatype object =
    Vertex point
  | Line line_accessor
  | Quad quad_accessor
  | Hex hex_accessor

fun structure_dimension :: "object \<Rightarrow> nat" where
  "structure_dimension (Vertex v) = 0"
| "structure_dimension (Line l) = 1"
| "structure_dimension (Quad q) = 2"
| "structure_dimension (Hex h) = 3"

fun space_dimension :: "object \<Rightarrow> nat" where
  "space_dimension (Vertex v) = length v"
| "space_dimension (Line l) = line_space_dimension l"
| "space_dimension (Quad q) = quad_space_dimension q"
| "space_dimension (Hex h) = 3"

text \<open>
  Modelled from the spec: the constants of \<open>GeometryInfo<dim>\<close> (its header is not
  among the sources), the numbers of vertices, lines and faces of a cell. A hexahedron
  has 8 vertices, 12 lines and 6 faces, a quad has 4 vertices and 4 lines.
\<close>

definition vertices_per_cell :: "nat \<Rightarrow> nat" where
  "vertices_per_cell dim' = 2 ^ dim'"

definition lines_per_cell :: "nat \<Rightarrow> nat" where
  "lines_per_cell dim' = dim' * 2 ^ (dim' - 1)"

definition faces_per_cell :: "nat \<Rightarrow> nat" where
  "faces_per_cell dim' = 2 * dim'"

text \<open>
  \<open>Manifolds::get_default_quadrature\<close>, the overload for a cell of a
  three-dimensional triangulation. The three loops share the running index \<open>j\<close>.
\<close>

definition get_default_quadrature_hex :: "hex_accessor \<Rightarrow> quadrature" where
  "get_default_quadrature_hex obj =
     (let dim' = 3;
          np = vertices_per_cell dim' + lines_per_cell dim' + faces_per_cell dim';
          sp = replicate np (Point 3);
          wp = replicate np (0::real);
          j = (0::nat);
          (sp, wp, j) =
            fold (\<lambda>i (sp, wp, j).
                    (sp[j := hex_vertex obj i], wp[j := 1 / 128], j + 1))
              [0..<vertices_per_cell dim'] (sp, wp, j);
          (sp, wp, j) =
            fold (\<lambda>i (sp, wp, j).
                    (sp[j := (if line_has_children (hex_line obj i)
                              then line_child_vertex (hex_line obj i) 0 1
                              else line_center (hex_line obj i))],
                     wp[j := 7 / 192], j + 1))
              [0..<lines_per_cell dim'] (sp, wp, j);
          (sp, wp, j) =
            fold (\<lambda>i (sp, wp, j).
                    (sp[j := (if quad_has_children (hex_face obj i)
                              then quad_isotropic_child_vertex (hex_face obj i) 0 3
                              else quad_center (hex_face obj i))],
                     wp[j := 1 / 12], j + 1))
              [0..<faces_per_cell dim'] (sp, wp, j)
      in Quadrature sp wp)"

text \<open>\<open>std::fill (first, last, value)\<close> on the positions \<open>first \<le> i < last\<close>.\<close>

definition fill :: "nat \<Rightarrow> nat \<Rightarrow> 'a \<Rightarrow> 'a list \<Rightarrow> 'a list" where
  "fill first last' v xs = fold (\<lambda>i xs. xs[i := v]) [first..<last'] xs"

text \<open>
  \<open>Manifolds::get_default_quadrature\<close>, the template. \<open>switch (dim)\<close> on the
  structure dimension of \<open>OBJECT\<close> is the case distinction on the kind of entity: a
  line is \<open>case 1\<close>, a quad is \<open>case 2\<close>, everything else is \<open>default\<close>.
  \<open>AssertDimension (a, b)\<close>, whose definition is not among the sources, is read as
  the assertion that the two dimensions are equal.
\<close>

definition get_default_quadrature :: "nat \<Rightarrow> object \<Rightarrow> bool \<Rightarrow> error + quadrature" where
  "get_default_quadrature spacedim obj with_laplace =
     Assert (spacedim = space_dimension obj)
       (ExcDimensionMismatch spacedim (space_dimension obj))
       (case obj of
          Line line \<Rightarrow>
            (let sp = replicate 2 (Point spacedim);
                 wp = replicate 2 (0::real);
                 sp = sp[0 := line_vertex line 0]; wp = wp[0 := 5 / 10];
                 sp = sp[1 := line_vertex line 1]; wp = wp[1 := 5 / 10]
             in Inr (Quadrature sp wp))
        | Quad quad \<Rightarrow>
            (let sp = replicate 8 (Point spacedim);
                 wp = replicate 8 (0::real);
                 sp = sp[0 := quad_vertex quad 0];
                 sp = sp[1 := quad_vertex quad 1];
                 sp = sp[2 := quad_vertex quad 2];
                 sp = sp[3 := quad_vertex quad 3];
                 sp = sp[4 := (if line_has_children (quad_line quad 0)
                               then line_child_vertex (quad_line quad 0) 0 1
                               else line_center (quad_line quad 0))];
                 sp = sp[5 := (if line_has_children (quad_line quad 1)
                               then line_child_vertex (quad_line quad 1) 0 1
                               else line_center (quad_line quad 1))];
                 sp = sp[6 := (if line_has_children (quad_line quad 2)
                               then line_child_vertex (quad_line quad 2) 0 1
                               else line_center (quad_line quad 2))];
                 sp = sp[7 := (if line_has_children (quad_line quad 3)
                               then line_child_vertex (quad_line quad 3) 0 1
                               else line_center (quad_line quad 3))];
                 wp = (if with_laplace
                       then fill 4 (length wp) (3 / 16) (fill 0 4 (1 / 16) wp)
                       else fill 0 (length wp) (1 / 8) wp)
             in Inr (Quadrature sp wp))
        | _ \<Rightarrow> Assert False ExcInternalError (Inr (Quadrature [] [])))"

text \<open>
  The samples in the words of the specification: an edge contributes the vertex its
  children share if it is refined and its center otherwise; a face contributes the
  interior vertex of its isotropic children if it is refined and its center otherwise.
\<close>

definition edge_sample :: "line_accessor \<Rightarrow> point" where
  "edge_sample e = (if line_has_children e then line_child_vertex e 0 1 else line_center e)"

definition face_sample :: "quad_accessor \<Rightarrow> point" where
  "face_sample f =
     (if quad_has_children f then quad_isotropic_child_vertex f 0 3 else quad_center f)"

section \<open>The entity queries of Manifold\<close>

text \<open>
  The queries call the virtual \<open>get_new_point\<close> of the object they run on; it is the
  parameter \<open>get_new_point\<close>. The template arguments \<open>dim\<close> and \<open>spacedim\<close> of
  \<open>Manifold<dim, spacedim>\<close> are the parameters \<open>dim'\<close> and \<open>spacedim\<close>.
\<close>

definition get_new_point_on_line ::
  "(quadrature \<Rightarrow> error + point) \<Rightarrow> nat \<Rightarrow> line_accessor \<Rightarrow> error + point" where
  "get_new_point_on_line get_new_point spacedim line =
     (case get_default_quadrature spacedim (Line line) False of
        Inl exc \<Rightarrow> Inl exc
      | Inr quadrature \<Rightarrow> get_new_point quadrature)"

text \<open>
  \<open>get_new_point_on_quad\<close>: the specialisations \<open>Manifold<1,1>\<close>, \<open>Manifold<1,2>\<close>
  and \<open>Manifold<1,3>\<close> first, the template otherwise.
\<close>

definition get_new_point_on_quad ::
  "(quadrature \<Rightarrow> error + point) \<Rightarrow> nat \<Rightarrow> nat \<Rightarrow> quad_accessor \<Rightarrow> error + point" where
  "get_new_point_on_quad get_new_point dim' spacedim quad =
     (if dim' = 1 \<and> spacedim \<in> {1, 2, 3}
      then Assert False (ExcImpossibleInDim 1) (Inr (Point spacedim))
      else (case get_default_quadrature spacedim (Quad quad) False of
              Inl exc \<Rightarrow> Inl exc
            | Inr quadrature \<Rightarrow> get_new_point quadrature))"

text \<open>
  \<open>get_new_point_on_hex\<close>: the specialisation \<open>Manifold<3,3>\<close> builds the quadrature
  of the hex, the template refuses.
\<close>

definition get_new_point_on_hex ::
  "(quadrature \<Rightarrow> error + point) \<Rightarrow> nat \<Rightarrow> nat \<Rightarrow> hex_accessor \<Rightarrow> error + point" where
  "get_new_point_on_hex get_new_point dim' spacedim hex =
     (if dim' = 3 \<and> spacedim = 3
      then get_new_point (get_default_quadrature_hex hex)
      else Assert False (ExcImpossibleInDim dim') (Inr (Point spacedim)))"

text \<open>
  \<open>get_new_point_on_face\<close>: the three specialisations for \<open>dim = 1\<close> first, the
  template otherwise. By its C++ type the \<open>face_iterator\<close> of a two-dimensional
  triangulation is a line and that of a three-dimensional one is a quad; an argument of
  another kind cannot reach \<open>case 2\<close> or \<open>case 3\<close>, and the model lets it fall through
  the \<open>switch\<close> to the final \<open>return\<close>.
\<close>

definition get_new_point_on_face ::
  "(quadrature \<Rightarrow> error + point) \<Rightarrow> nat \<Rightarrow> nat \<Rightarrow> object \<Rightarrow> error + point" where
  "get_new_point_on_face get_new_point dim' spacedim face =
     (if dim' = 1 \<and> spacedim \<in> {1, 2, 3}
      then Assert False (ExcImpossibleInDim 1) (Inr (Point spacedim))
      else Assert (dim' > 1) (ExcImpossibleInDim dim')
             (if dim' = 2
              then (case face of
                      Line line \<Rightarrow> get_new_point_on_line get_new_point spacedim line
                    | _ \<Rightarrow> Inr (Point spacedim))
              else if dim' = 3
              then (case face of
                      Quad quad \<Rightarrow> get_new_point_on_quad get_new_point dim' spacedim quad
                    | _ \<Rightarrow> Inr (Point spacedim))
              else Inr (Point spacedim)))"

text \<open>\<open>get_new_point_on_cell\<close>, with the same reading of the iterator's type.\<close>

definition get_new_point_on_cell ::
  "(quadrature \<Rightarrow> error + point) \<Rightarrow> nat \<Rightarrow> nat \<Rightarrow> object \<Rightarrow> error + point" where
  "get_new_point_on_cell get_new_point dim' spacedim cell =
     (if dim' = 1
      then (case cell of
              Line line \<Rightarrow> get_new_point_on_line get_new_point spacedim line
            | _ \<Rightarrow> Inr (Point spacedim))
      else if dim' = 2
      then (case cell of
              Quad quad \<Rightarrow> get_new_point_on_quad get_new_point dim' spacedim quad
            | _ \<Rightarrow> Inr (Point spacedim))
      else if dim' = 3
      then (case cell of
              Hex hex \<Rightarrow> get_new_point_on_hex get_new_point dim' spacedim hex
            | _ \<Rightarrow> Inr (Point spacedim))
      else Inr (Point spacedim))"

section \<open>FlatManifold\<close>

text \<open>
  The first pair of loops of \<open>FlatManifold::get_new_point\<close>: one step for the sample
  \<open>i\<close> and the axis \<open>d\<close>. It lowers \<open>minP[d]\<close> to the sample's coordinate and, on a
  periodic axis, checks the coordinate against the period. A failed check ends the run,
  so the state is either the violation or the current \<open>minP\<close>.
\<close>

definition periodic_box_step ::
  "point \<Rightarrow> point list \<Rightarrow> nat \<Rightarrow> nat \<Rightarrow> error + point \<Rightarrow> error + point" where
  "periodic_box_step periodicity surrounding_points i d state =
     (case state of
        Inl exc \<Rightarrow> Inl exc
      | Inr minP \<Rightarrow>
          (let minP = minP[d := min (minP ! d) (surrounding_points ! i ! d)]
           in if periodicity ! d > 0
              then Assert (surrounding_points ! i ! d < periodicity ! d + tolerance)
                     (ExcMessage ''One of the points does not lye into the periodic box! Bailing out.'')
                     (Inr minP)
              else Inr minP))"

definition periodic_box_loop ::
  "nat \<Rightarrow> point \<Rightarrow> point list \<Rightarrow> point \<Rightarrow> error + point" where
  "periodic_box_loop spacedim periodicity surrounding_points minP =
     fold (\<lambda>i state.
             fold (\<lambda>d state. periodic_box_step periodicity surrounding_points i d state)
               [0..<spacedim] state)
       [0..<length surrounding_points] (Inr minP)"

text \<open>
  The shift \<open>dp\<close> of one sample \<open>x\<close>: minus the period on every periodic axis on which
  the sample lies more than half a period above \<open>minP\<close>.
\<close>

definition wrap_shift :: "bool \<Rightarrow> nat \<Rightarrow> point \<Rightarrow> point \<Rightarrow> point \<Rightarrow> point" where
  "wrap_shift check_period spacedim periodicity minP x =
     (let dp = Point spacedim
      in if check_period
         then fold (\<lambda>d dp.
                      if periodicity ! d > 0
                      then dp[d := (if x ! d - minP ! d > periodicity ! d / 2
                                    then - (periodicity ! d) else 0)]
                      else dp)
                [0..<spacedim] dp
         else dp)"

text \<open>The last loop: a negative coordinate on a periodic axis is moved up by the period.\<close>

definition renormalize :: "bool \<Rightarrow> nat \<Rightarrow> point \<Rightarrow> point \<Rightarrow> point" where
  "renormalize check_period spacedim periodicity p =
     (if check_period
      then fold (\<lambda>d p.
                   if periodicity ! d > 0
                   then p[d := (if p ! d < 0 then p ! d + periodicity ! d else p ! d)]
                   else p)
             [0..<spacedim] p
      else p)"

text \<open>\<open>FlatManifold::get_new_point\<close>; \<open>periodicity\<close> is the member set by the constructor.\<close>

definition FlatManifold_get_new_point ::
  "bool \<Rightarrow> nat \<Rightarrow> point \<Rightarrow> quadrature \<Rightarrow> error + point" where
  "FlatManifold_get_new_point DEBUG spacedim periodicity quad =
     (let surrounding_points = get_points quad;
          weights = get_weights quad
      in check_weights DEBUG weights
           (let minP = periodicity;
                check_period = (norm_point periodicity \<noteq> 0)
            in case (if check_period
                     then periodic_box_loop spacedim periodicity surrounding_points minP
                     else Inr minP) of
                 Inl exc \<Rightarrow> Inl exc
               | Inr minP \<Rightarrow>
                   (let p = fold (\<lambda>i p.
                                    let dp = wrap_shift check_period spacedim periodicity minP
                                               (surrounding_points ! i)
                                    in point_add p
                                         (point_scale (point_add (surrounding_points ! i) dp)
                                            (weights ! i)))
                              [0..<length surrounding_points] (Point spacedim);
                        p = renormalize check_period spacedim periodicity p
                    in FlatManifold_project_to_manifold surrounding_points p)))"

text \<open>
  The check the first loop makes, as a predicate on the samples: on every axis with a
  positive period each sample lies below the period plus the tolerance.
\<close>

definition passes_periodic_check :: "nat \<Rightarrow> point \<Rightarrow> point list \<Rightarrow> bool" where
  "passes_periodic_check spacedim periodicity surrounding_points \<longleftrightarrow>
     list_all (\<lambda>x. list_all (\<lambda>d. periodicity ! d > 0 \<longrightarrow> x ! d < periodicity ! d + tolerance)
                      [0..<spacedim])
       surrounding_points"

section \<open>ManifoldChart\<close>

text \<open>
  \<open>ManifoldChart::get_new_point\<close>. The pure virtual \<open>pull_back\<close> and \<open>push_forward\<close>
  of the concrete chart are parameters.

  Modelled from the spec: the member \<open>sub_manifold\<close> (declared in \<open>manifold.h\<close>, which
  is not among the sources) is the periodic flat manifold over the chart space that the
  constructor builds from \<open>periodicity\<close>.
\<close>

definition ManifoldChart_get_new_point ::
  "bool \<Rightarrow> nat \<Rightarrow> (point \<Rightarrow> point) \<Rightarrow> (point \<Rightarrow> point) \<Rightarrow> point \<Rightarrow> quadrature
     \<Rightarrow> error + point" where
  "ManifoldChart_get_new_point DEBUG chartdim pull_back push_forward periodicity quad =
     (let surrounding_points = get_points quad;
          weights = get_weights quad;
          chart_points = replicate (length surrounding_points) (Point chartdim);
          chart_points = fold (\<lambda>i chart_points.
                                 chart_points[i := pull_back (surrounding_points ! i)])
                           [0..<length surrounding_points] chart_points;
          chart_quad = Quadrature chart_points weights
      in case FlatManifold_get_new_point DEBUG chartdim periodicity chart_quad of
           Inl exc \<Rightarrow> Inl exc
         | Inr p_chart \<Rightarrow> Inr (push_forward p_chart))"

section \<open>Concrete entities\<close>

text \<open>
  Unrefined entities for the closed instances further down: the straight line between
  two points, the quadrilateral on four corners and the unit cube, each with its
  vertices, lines, faces and center.
\<close>

definition segment :: "point \<Rightarrow> point \<Rightarrow> line_accessor" where
  "segment a b =
     \<lparr>line_space_dimension = length a,
      line_vertex = (\<lambda>i. if i = 0 then a else b),
      line_has_children = False,
      line_child_vertex = (\<lambda>c v. point_scale (point_add a b) (1 / 2)),
      line_center = point_scale (point_add a b) (1 / 2)\<rparr>"

definition quadrilateral :: "point \<Rightarrow> point \<Rightarrow> point \<Rightarrow> point \<Rightarrow> quad_accessor" where
  "quadrilateral v0 v1 v2 v3 =
     \<lparr>quad_space_dimension = length v0,
      quad_vertex = (\<lambda>i. [v0, v1, v2, v3] ! i),
      quad_line = (\<lambda>i. [segment v0 v2, segment v1 v3, segment v0 v1, segment v2 v3] ! i),
      quad_has_children = False,
      quad_isotropic_child_vertex =
        (\<lambda>c v. point_scale (point_add (point_add v0 v1) (point_add v2 v3)) (1 / 4)),
      quad_center = point_scale (point_add (point_add v0 v1) (point_add v2 v3)) (1 / 4)\<rparr>"

definition unit_cube_vertex :: "nat \<Rightarrow> point" where
  "unit_cube_vertex i = [real (i mod 2), real (i div 2 mod 2), real (i div 4 mod 2)]"

definition unit_hex :: hex_accessor where
  "unit_hex =
     \<lparr>hex_vertex = unit_cube_vertex,
      hex_line =
        (\<lambda>i. case [(0, 2), (1, 3), (0, 1), (2, 3), (4, 6), (5, 7), (4, 5), (6, 7),
                     (0, 4), (1, 5), (2, 6), (3, 7)] ! i of
                (a, b) \<Rightarrow> segment (unit_cube_vertex a) (unit_cube_vertex b)),
      hex_face =
        (\<lambda>i. case [(0, 2, 4, 6), (1, 3, 5, 7), (0, 4, 1, 5), (2, 6, 3, 7),
                     (0, 1, 2, 3), (4, 5, 6, 7)] ! i of
                (a, b, c, d) \<Rightarrow>
                  quadrilateral (unit_cube_vertex a) (unit_cube_vertex b)
                    (unit_cube_vertex c) (unit_cube_vertex d))\<rparr>"

section \<open>Binary64 arithmetic\<close>

text \<open>
  Where a statement is about the exact value the code returns, \<open>double\<close> is the IEEE 754
  binary64 format: every arithmetic operation computes the exact result and rounds it to
  the nearest representable number, ties to the even significand, with no excess
  precision and no fused multiply-add. A value is a finite real, an infinity or a NaN.
  The two zeros are one value: \<open>FlatManifold::get_new_point\<close> never divides by a computed
  number and never looks at the sign of a zero.
\<close>

datatype double = Finite real | PlusInfinity | MinusInfinity | NaN

text \<open>
  The binary exponent of a non-zero real: the \<open>e\<close> with \<open>2\<^sup>e \<le> |x| < 2\<^sup>e\<^sup>+\<^sup>1\<close>, computed from
  the bit length of the integer part of \<open>|x|\<close> or of its reciprocal.
\<close>

definition exponent :: "real \<Rightarrow> int" where
  "exponent x =
     (if \<bar>x\<bar> \<ge> 1 then bitlen \<lfloor>\<bar>x\<bar>\<rfloor> - 1 else - bitlen (\<lceil>1 / \<bar>x\<bar>\<rceil> - 1))"

text \<open>The nearest integer, a tie going to the even neighbour.\<close>

definition round_to_even :: "real \<Rightarrow> int" where
  "round_to_even y =
     (let n = \<lfloor>y\<rfloor>; r = y - of_int n
      in if r < 1 / 2 then n else if r > 1 / 2 then n + 1 else if even n then n else n + 1)"

text \<open>\<open>DBL_MAX\<close>, the largest finite number: \<open>(2\<^sup>5\<^sup>3 - 1) \<cdot> 2\<^sup>9\<^sup>7\<^sup>1\<close>.\<close>

definition max_double :: real where
  "max_double = (2 ^ 53 - 1) * 2 ^ 971"

text \<open>
  Rounding to binary64. The spacing of the representable numbers around \<open>x\<close> is
  \<open>2\<^sup>e\<^sup>-\<^sup>5\<^sup>2\<close>, with the exponent held at \<open>-1022\<close> in the subnormal range; a result beyond
  \<open>DBL_MAX\<close> is an infinity. A decimal literal of the source is \<open>round64\<close> of its value.
\<close>

definition round64 :: "real \<Rightarrow> double" where
  "round64 x =
     (if x = 0 then Finite 0
      else let e = max (exponent x) (- 1022);
               quantum = 2 powi (e - 52);
               y = of_int (round_to_even (x / quantum)) * quantum
           in if \<bar>y\<bar> > max_double then (if x > 0 then PlusInfinity else MinusInfinity)
              else Finite y)"

text \<open>
  The operations the function uses: unary minus, \<open>+\<close>, \<open>-\<close>, \<open><\<close>, \<open>*\<close>, the division by
  the literal \<open>2.0\<close>, \<open>std::abs\<close>, \<open>std::sqrt\<close> and \<open>std::min\<close>. A comparison with a NaN
  is false, and \<open>std::min (a, b)\<close> is \<open>b\<close> if \<open>b < a\<close> and \<open>a\<close> otherwise.
\<close>

fun fneg :: "double \<Rightarrow> double" where
  "fneg (Finite a) = Finite (- a)"
| "fneg PlusInfinity = MinusInfinity"
| "fneg MinusInfinity = PlusInfinity"
| "fneg NaN = NaN"

fun fadd :: "double \<Rightarrow> double \<Rightarrow> double" where
  "fadd (Finite a) (Finite b) = round64 (a + b)"
| "fadd NaN b = NaN"
| "fadd a NaN = NaN"
| "fadd PlusInfinity MinusInfinity = NaN"
| "fadd MinusInfinity PlusInfinity = NaN"
| "fadd PlusInfinity b = PlusInfinity"
| "fadd MinusInfinity b = MinusInfinity"
| "fadd a PlusInfinity = PlusInfinity"
| "fadd a MinusInfinity = MinusInfinity"

definition fsub :: "double \<Rightarrow> double \<Rightarrow> double" where
  "fsub a b = fadd a (fneg b)"

fun fless :: "double \<Rightarrow> double \<Rightarrow> bool" where
  "fless (Finite a) (Finite b) = (a < b)"
| "fless NaN b = False"
| "fless a NaN = False"
| "fless a MinusInfinity = False"
| "fless PlusInfinity b = False"
| "fless MinusInfinity b = True"
| "fless a PlusInfinity = True"

fun fmul :: "double \<Rightarrow> double \<Rightarrow> double" where
  "fmul (Finite a) (Finite b) = round64 (a * b)"
| "fmul NaN b = NaN"
| "fmul a NaN = NaN"
| "fmul a b =
     (if a = Finite 0 \<or> b = Finite 0 then NaN
      else if fless a (Finite 0) = fless b (Finite 0) then PlusInfinity else MinusInfinity)"

fun fdiv2 :: "double \<Rightarrow> double" where
  "fdiv2 (Finite a) = round64 (a / 2)"
| "fdiv2 a = a"

fun fabs :: "double \<Rightarrow> double" where
  "fabs (Finite a) = Finite \<bar>a\<bar>"
| "fabs PlusInfinity = PlusInfinity"
| "fabs MinusInfinity = PlusInfinity"
| "fabs NaN = NaN"

fun fsqrt :: "double \<Rightarrow> double" where
  "fsqrt (Finite a) = (if a < 0 then NaN else round64 (sqrt a))"
| "fsqrt PlusInfinity = PlusInfinity"
| "fsqrt MinusInfinity = NaN"
| "fsqrt NaN = NaN"

definition fmin :: "double \<Rightarrow> double \<Rightarrow> double" where
  "fmin a b = (if fless b a then b else a)"

text \<open>A number is representable if rounding leaves it as it is.\<close>

definition binary64 :: "real \<Rightarrow> bool" where
  "binary64 x \<longleftrightarrow> round64 x = Finite x"

text \<open>The multiples of the smallest subnormal number \<open>2\<^sup>-\<^sup>1\<^sup>0\<^sup>7\<^sup>4\<close>.\<close>

definition on_grid :: "real \<Rightarrow> bool" where
  "on_grid y \<longleftrightarrow> (\<exists>k::int. y = of_int k * 2 powi (- 1074))"

text \<open>
  Points, quadratures and the point operations over binary64, as in the first section.

  Modelled from the spec: \<open>Point::norm\<close> (\<open>tensor.h\<close> is not among the sources) is the
  Euclidean length, the square root of the squares added up in the order of the axes.
\<close>

type_synonym point_b64 = "double list"

record quadrature_b64 =
  get_points_b64 :: "point_b64 list"
  get_weights_b64 :: "double list"

definition Quadrature_b64 :: "point_b64 list \<Rightarrow> double list \<Rightarrow> quadrature_b64" where
  "Quadrature_b64 sp wp = \<lparr>get_points_b64 = sp, get_weights_b64 = wp\<rparr>"

definition Point_b64 :: "nat \<Rightarrow> point_b64" where
  "Point_b64 spacedim = replicate spacedim (Finite 0)"

definition point_add_b64 :: "point_b64 \<Rightarrow> point_b64 \<Rightarrow> point_b64" where
  "point_add_b64 p q = map2 fadd p q"

definition point_scale_b64 :: "point_b64 \<Rightarrow> double \<Rightarrow> point_b64" where
  "point_scale_b64 p w = map (\<lambda>x. fmul x w) p"

definition norm_b64 :: "point_b64 \<Rightarrow> double" where
  "norm_b64 p = fsqrt (fold (\<lambda>x q. fadd q (fmul x x)) p (Finite 0))"

text \<open>The literal \<open>1e-10\<close> of the two assertions.\<close>

definition tolerance_b64 :: double where
  "tolerance_b64 = round64 (1 / 10 ^ 10)"

text \<open>
  \<open>FlatManifold::get_new_point\<close> over binary64: the definitions of the section on
  \<open>FlatManifold\<close> with every operation replaced by its rounded counterpart.
\<close>

definition weights_sum_b64 :: "double list \<Rightarrow> double" where
  "weights_sum_b64 weights = fold (\<lambda>i sum. fadd sum (weights ! i)) [0..<length weights] (Finite 0)"

definition check_weights_b64 :: "bool \<Rightarrow> double list \<Rightarrow> (error + 'a) \<Rightarrow> error + 'a" where
  "check_weights_b64 DEBUG weights rest =
     (if DEBUG
      then Assert (fless (fabs (fsub (weights_sum_b64 weights) (Finite 1))) tolerance_b64)
             (ExcMessage ''Weights should sum to 1!'') rest
      else rest)"

definition periodic_box_step_b64 ::
  "point_b64 \<Rightarrow> point_b64 list \<Rightarrow> nat \<Rightarrow> nat \<Rightarrow> error + point_b64 \<Rightarrow> error + point_b64" where
  "periodic_box_step_b64 periodicity surrounding_points i d state =
     (case state of
        Inl exc \<Rightarrow> Inl exc
      | Inr minP \<Rightarrow>
          (let minP = minP[d := fmin (minP ! d) (surrounding_points ! i ! d)]
           in if fless (Finite 0) (periodicity ! d)
              then Assert (fless (surrounding_points ! i ! d) (fadd (periodicity ! d) tolerance_b64))
                     (ExcMessage ''One of the points does not lye into the periodic box! Bailing out.'')
                     (Inr minP)
              else Inr minP))"

definition periodic_box_loop_b64 ::
  "nat \<Rightarrow> point_b64 \<Rightarrow> point_b64 list \<Rightarrow> point_b64 \<Rightarrow> error + point_b64" where
  "periodic_box_loop_b64 spacedim periodicity surrounding_points minP =
     fold (\<lambda>i state.
             fold (\<lambda>d state. periodic_box_step_b64 periodicity surrounding_points i d state)
               [0..<spacedim] state)
       [0..<length surrounding_points] (Inr minP)"

definition wrap_shift_b64 ::
  "bool \<Rightarrow> nat \<Rightarrow> point_b64 \<Rightarrow> point_b64 \<Rightarrow> point_b64 \<Rightarrow> point_b64" where
  "wrap_shift_b64 check_period spacedim periodicity minP x =
     (let dp = Point_b64 spacedim
      in if check_period
         then fold (\<lambda>d dp.
                      if fless (Finite 0) (periodicity ! d)
                      then dp[d := (if fless (fdiv2 (periodicity ! d)) (fsub (x ! d) (minP ! d))
                                    then fneg (periodicity ! d) else Finite 0)]
                      else dp)
                [0..<spacedim] dp
         else dp)"

definition renormalize_b64 :: "bool \<Rightarrow> nat \<Rightarrow> point_b64 \<Rightarrow> point_b64 \<Rightarrow> point_b64" where
  "renormalize_b64 check_period spacedim periodicity p =
     (if check_period
      then fold (\<lambda>d p.
                   if fless (Finite 0) (periodicity ! d)
                   then p[d := (if fless (p ! d) (Finite 0) then fadd (p ! d) (periodicity ! d)
                                else p ! d)]
                   else p)
             [0..<spacedim] p
      else p)"

definition FlatManifold_get_new_point_b64 ::
  "bool \<Rightarrow> nat \<Rightarrow> point_b64 \<Rightarrow> quadrature_b64 \<Rightarrow> error + point_b64" where
  "FlatManifold_get_new_point_b64 DEBUG spacedim periodicity quad =
     (let surrounding_points = get_points_b64 quad;
          weights = get_weights_b64 quad
      in check_weights_b64 DEBUG weights
           (let minP = periodicity;
                check_period = (norm_b64 periodicity \<noteq> Finite 0)
            in case (if check_period
                     then periodic_box_loop_b64 spacedim periodicity surrounding_points minP
                     else Inr minP) of
                 Inl exc \<Rightarrow> Inl exc
               | Inr minP \<Rightarrow>
                   (let p = fold (\<lambda>i p.
                                    let dp = wrap_shift_b64 check_period spacedim periodicity minP
                                               (surrounding_points ! i)
                                    in point_add_b64 p
                                         (point_scale_b64
                                            (point_add_b64 (surrounding_points ! i) dp)
                                            (weights ! i)))
                              [0..<length surrounding_points] (Point_b64 spacedim);
                        p = renormalize_b64 check_period spacedim periodicity p
                    in Inr p)))"

section \<open>Auxiliary facts about the loops\<close>

lemma length_point_add: "length (point_add p q) = min (length p) (length q)"
  by (simp add: point_add_def)

lemma length_point_scale: "length (point_scale p w) = length p"
  by (simp add: point_scale_def)

lemma nth_point_add:
  "d < length p \<Longrightarrow> d < length q \<Longrightarrow> point_add p q ! d = p ! d + q ! d"
  by (simp add: point_add_def)

lemma nth_point_scale: "d < length p \<Longrightarrow> point_scale p w ! d = p ! d * w"
  by (simp add: point_scale_def)

lemma weights_sum_upto:
  "n \<le> length ws \<Longrightarrow> fold (\<lambda>i sum. sum + ws ! i) [0..<n] s = s + sum_list (take n ws)"
proof (induction n)
  case 0
  then show ?case by simp
next
  case (Suc n)
  then have "take (Suc n) ws = take n ws @ [ws ! n]"
    by (simp add: take_Suc_conv_app_nth)
  with Suc show ?case by (simp add: add.assoc)
qed

lemma weights_sum_sum_list: "weights_sum ws = sum_list ws"
  using weights_sum_upto [of "length ws" ws 0] by (simp add: weights_sum_def)

lemma accumulate_length:
  assumes "length p0 = n" and "\<forall>i<m. length (f i) = n"
  shows "length (fold (\<lambda>i p. point_add p (point_scale (f i) (w i))) [0..<m] p0) = n"
  using assms by (induction m) (simp_all add: length_point_add length_point_scale)

lemma accumulate_nth:
  assumes "length p0 = n" and "\<forall>i<m. length (f i) = n" and "d < n"
  shows "fold (\<lambda>i p. point_add p (point_scale (f i) (w i))) [0..<m] p0 ! d
           = p0 ! d + sum_list (map (\<lambda>i. w i * (f i ! d)) [0..<m])"
  using assms
proof (induction m)
  case 0
  then show ?case by simp
next
  case (Suc m)
  let ?acc = "fold (\<lambda>i p. point_add p (point_scale (f i) (w i))) [0..<m] p0"
  have len: "length ?acc = n"
    using Suc.prems by (intro accumulate_length) auto
  have "fold (\<lambda>i p. point_add p (point_scale (f i) (w i))) [0..<Suc m] p0 ! d
          = point_add ?acc (point_scale (f m) (w m)) ! d"
    by simp
  also have "\<dots> = ?acc ! d + f m ! d * w m"
    using len Suc.prems by (simp add: nth_point_add nth_point_scale length_point_scale)
  finally show ?case
    using Suc by (simp add: mult.commute)
qed

lemma fold_update_each_length:
  "length (fold (\<lambda>d v. if c d then v[d := g d (v ! d)] else v) ds v) = length v"
  by (induction ds arbitrary: v) simp_all

lemma fold_update_each_nth:
  "j < length v \<Longrightarrow>
   fold (\<lambda>d v. if c d then v[d := g d (v ! d)] else v) [0..<k] v ! j
     = (if j < k \<and> c j then g j (v ! j) else v ! j)"
proof (induction k)
  case 0
  then show ?case by simp
next
  case (Suc k)
  let ?v = "fold (\<lambda>d v. if c d then v[d := g d (v ! d)] else v) [0..<k] v"
  have len: "length ?v = length v"
    by (rule fold_update_each_length)
  show ?case
  proof (cases "j = k")
    case True
    with Suc len show ?thesis by simp
  next
    case False
    with Suc len show ?thesis by (simp add: less_Suc_eq)
  qed
qed

lemma wrap_shift_length: "length (wrap_shift check_period spacedim periodicity minP x) = spacedim"
  by (simp add: wrap_shift_def Point_def Let_def
      fold_update_each_length
        [where g = "\<lambda>d a. if x ! d - minP ! d > periodicity ! d / 2 then - (periodicity ! d) else 0"])

lemma wrap_shift_nth:
  "d < spacedim \<Longrightarrow>
   wrap_shift check_period spacedim periodicity minP x ! d
     = (if check_period \<and> periodicity ! d > 0 \<and> x ! d - minP ! d > periodicity ! d / 2
        then - (periodicity ! d) else 0)"
  using fold_update_each_nth [of d "Point spacedim" "\<lambda>d. periodicity ! d > 0"
      "\<lambda>d a. if x ! d - minP ! d > periodicity ! d / 2 then - (periodicity ! d) else 0" spacedim]
  by (simp add: wrap_shift_def Point_def Let_def)

lemma renormalize_length: "length (renormalize check_period spacedim periodicity p) = length p"
  by (simp add: renormalize_def
      fold_update_each_length [where g = "\<lambda>d a. if a < 0 then a + periodicity ! d else a"])

lemma renormalize_nth:
  "d < spacedim \<Longrightarrow> length p = spacedim \<Longrightarrow>
   renormalize check_period spacedim periodicity p ! d
     = (if check_period \<and> periodicity ! d > 0 \<and> p ! d < 0 then p ! d + periodicity ! d else p ! d)"
  using fold_update_each_nth [of d p "\<lambda>d. periodicity ! d > 0"
      "\<lambda>d a. if a < 0 then a + periodicity ! d else a" spacedim]
  by (simp add: renormalize_def)

lemma periodic_box_step_passes:
  "(periodicity ! d > 0 \<Longrightarrow> sp ! i ! d < periodicity ! d + tolerance) \<Longrightarrow>
   periodic_box_step periodicity sp i d (Inr m) = Inr (m[d := min (m ! d) (sp ! i ! d)])"
  by (simp add: periodic_box_step_def Assert_def Let_def)

lemma periodic_box_inner:
  assumes "\<forall>d<k. periodicity ! d > 0 \<longrightarrow> sp ! i ! d < periodicity ! d + tolerance"
  shows "\<exists>m'. fold (\<lambda>d state. periodic_box_step periodicity sp i d state) [0..<k] (Inr m) = Inr m'
            \<and> length m' = length m
            \<and> (\<forall>j<length m. m' ! j = (if j < k then min (m ! j) (sp ! i ! j) else m ! j))"
  using assms
proof (induction k)
  case 0
  then show ?case by simp
next
  case (Suc k)
  then obtain m' where m':
    "fold (\<lambda>d state. periodic_box_step periodicity sp i d state) [0..<k] (Inr m) = Inr m'"
    "length m' = length m"
    "\<forall>j<length m. m' ! j = (if j < k then min (m ! j) (sp ! i ! j) else m ! j)"
    by auto
  let ?m = "m'[k := min (m' ! k) (sp ! i ! k)]"
  have ok: "periodicity ! k > 0 \<Longrightarrow> sp ! i ! k < periodicity ! k + tolerance"
    using Suc.prems by simp
  have "fold (\<lambda>d state. periodic_box_step periodicity sp i d state) [0..<Suc k] (Inr m) = Inr ?m"
    using m'(1) periodic_box_step_passes [OF ok, of m'] by simp
  moreover have "length ?m = length m"
    using m'(2) by simp
  moreover have "\<forall>j<length m. ?m ! j = (if j < Suc k then min (m ! j) (sp ! i ! j) else m ! j)"
    using m'(2,3) by (auto simp: nth_list_update less_Suc_eq)
  ultimately show ?case by blast
qed

lemma periodic_box_outer:
  assumes "\<forall>i<n. \<forall>d<spacedim. periodicity ! d > 0 \<longrightarrow> sp ! i ! d < periodicity ! d + tolerance"
    and "length m = spacedim"
  shows "\<exists>m'. fold (\<lambda>i state.
                   fold (\<lambda>d state. periodic_box_step periodicity sp i d state) [0..<spacedim] state)
                 [0..<n] (Inr m) = Inr m'
            \<and> length m' = spacedim
            \<and> (\<forall>j<spacedim. m' ! j = fold (\<lambda>i a. min a (sp ! i ! j)) [0..<n] (m ! j))"
  using assms
proof (induction n)
  case 0
  then show ?case by simp
next
  case (Suc n)
  then obtain m' where m':
    "fold (\<lambda>i state.
             fold (\<lambda>d state. periodic_box_step periodicity sp i d state) [0..<spacedim] state)
       [0..<n] (Inr m) = Inr m'"
    "length m' = spacedim"
    "\<forall>j<spacedim. m' ! j = fold (\<lambda>i a. min a (sp ! i ! j)) [0..<n] (m ! j)"
    by auto
  have "\<forall>d<spacedim. periodicity ! d > 0 \<longrightarrow> sp ! n ! d < periodicity ! d + tolerance"
    using Suc.prems by simp
  from periodic_box_inner [OF this, of m'] m'(2)
  obtain m'' where m'':
    "fold (\<lambda>d state. periodic_box_step periodicity sp n d state) [0..<spacedim] (Inr m') = Inr m''"
    "length m'' = spacedim"
    "\<forall>j<spacedim. m'' ! j = min (m' ! j) (sp ! n ! j)"
    by auto
  show ?case
    using m'(1,3) m'' by simp
qed

lemma FlatManifold_get_new_point_value:
  assumes al: "aligned spacedim quad"
    and per: "length periodicity = spacedim"
    and dbg: "DEBUG \<Longrightarrow> \<bar>sum_list (get_weights quad) - 1\<bar> < tolerance"
    and box: "\<forall>i<length (get_points quad). \<forall>d<spacedim.
                periodicity ! d > 0 \<longrightarrow> get_points quad ! i ! d < periodicity ! d + tolerance"
  shows "\<exists>p minP.
           FlatManifold_get_new_point DEBUG spacedim periodicity quad = Inr p
         \<and> length p = spacedim
         \<and> (\<forall>d<spacedim.
               minP ! d = (if norm_point periodicity \<noteq> 0
                           then fold (\<lambda>i a. min a (get_points quad ! i ! d))
                                  [0..<length (get_points quad)] (periodicity ! d)
                           else periodicity ! d))
         \<and> (\<forall>d<spacedim.
               p ! d =
                 (let s = sum_list (map (\<lambda>i. get_weights quad ! i *
                             (get_points quad ! i ! d +
                               (if norm_point periodicity \<noteq> 0 \<and> periodicity ! d > 0
                                   \<and> get_points quad ! i ! d - minP ! d > periodicity ! d / 2
                                then - (periodicity ! d) else 0)))
                           [0..<length (get_points quad)])
                  in if norm_point periodicity \<noteq> 0 \<and> periodicity ! d > 0 \<and> s < 0
                     then s + periodicity ! d else s))"
proof -
  let ?sp = "get_points quad" and ?ws = "get_weights quad"
  let ?cp = "norm_point periodicity \<noteq> 0"
  have dims: "\<forall>i<length ?sp. length (?sp ! i) = spacedim"
    using al by (simp add: aligned_def list_all_length)
  obtain minP where minP:
    "(if ?cp then periodic_box_loop spacedim periodicity ?sp periodicity else Inr periodicity)
       = Inr minP"
    "length minP = spacedim"
    "\<forall>d<spacedim. minP ! d = (if ?cp
        then fold (\<lambda>i a. min a (?sp ! i ! d)) [0..<length ?sp] (periodicity ! d)
        else periodicity ! d)"
  proof (cases ?cp)
    case True
    from periodic_box_outer [OF box per] True that show ?thesis
      unfolding periodic_box_loop_def by auto
  next
    case False
    with per that show ?thesis by simp
  qed
  define f where "f i = point_add (?sp ! i) (wrap_shift ?cp spacedim periodicity minP (?sp ! i))" for i
  have f_len: "\<forall>i<length ?sp. length (f i) = spacedim"
    using dims by (simp add: f_def length_point_add wrap_shift_length)
  have f_nth: "f i ! d = ?sp ! i ! d +
      (if ?cp \<and> periodicity ! d > 0 \<and> ?sp ! i ! d - minP ! d > periodicity ! d / 2
       then - (periodicity ! d) else 0)"
    if "i < length ?sp" "d < spacedim" for i d
    using that dims unfolding f_def
    by (subst nth_point_add) (simp_all add: wrap_shift_length wrap_shift_nth)
  define acc where
    "acc = fold (\<lambda>i p. point_add p (point_scale (f i) (?ws ! i))) [0..<length ?sp] (Point spacedim)"
  have acc_len: "length acc = spacedim"
    unfolding acc_def using f_len by (intro accumulate_length) (simp_all add: Point_def)
  have acc_nth: "acc ! d = sum_list (map (\<lambda>i. ?ws ! i * (?sp ! i ! d +
      (if ?cp \<and> periodicity ! d > 0 \<and> ?sp ! i ! d - minP ! d > periodicity ! d / 2
       then - (periodicity ! d) else 0))) [0..<length ?sp])"
    if "d < spacedim" for d
  proof -
    have "acc ! d = Point spacedim ! d + sum_list (map (\<lambda>i. ?ws ! i * (f i ! d)) [0..<length ?sp])"
      unfolding acc_def using f_len that
      by (intro accumulate_nth [where n = spacedim]) (simp_all add: Point_def)
    also have "map (\<lambda>i. ?ws ! i * (f i ! d)) [0..<length ?sp]
        = map (\<lambda>i. ?ws ! i * (?sp ! i ! d +
            (if ?cp \<and> periodicity ! d > 0 \<and> ?sp ! i ! d - minP ! d > periodicity ! d / 2
             then - (periodicity ! d) else 0))) [0..<length ?sp]"
      using that by (intro map_cong) (simp_all add: f_nth)
    finally show ?thesis using that by (simp add: Point_def)
  qed
  have result: "FlatManifold_get_new_point DEBUG spacedim periodicity quad
      = Inr (renormalize ?cp spacedim periodicity acc)"
    using dbg minP(1)
    by (simp add: FlatManifold_get_new_point_def check_weights_def Assert_def Let_def weights_sum_sum_list
        acc_def f_def FlatManifold_project_to_manifold_def)
  have fin: "renormalize ?cp spacedim periodicity acc ! d =
      (let s = sum_list (map (\<lambda>i. ?ws ! i * (?sp ! i ! d +
               (if ?cp \<and> periodicity ! d > 0 \<and> ?sp ! i ! d - minP ! d > periodicity ! d / 2
                then - (periodicity ! d) else 0))) [0..<length ?sp])
       in if ?cp \<and> periodicity ! d > 0 \<and> s < 0 then s + periodicity ! d else s)"
    if "d < spacedim" for d
    by (simp only: renormalize_nth [OF that acc_len] acc_nth [OF that] Let_def)
  have "length (renormalize ?cp spacedim periodicity acc) = spacedim"
    using acc_len by (simp only: renormalize_length)
  with result minP(3) fin show ?thesis
    by blast
qed

lemma passes_periodic_checkD:
  "passes_periodic_check spacedim periodicity sp \<Longrightarrow>
   \<forall>i<length sp. \<forall>d<spacedim. periodicity ! d > 0 \<longrightarrow> sp ! i ! d < periodicity ! d + tolerance"
  by (simp add: passes_periodic_check_def list_all_length)

lemma get_default_quadrature_hex_unfolded:
  "get_default_quadrature_hex obj =
     Quadrature
       (map (hex_vertex obj) [0..<8] @ map (\<lambda>i. edge_sample (hex_line obj i)) [0..<12]
          @ map (\<lambda>i. face_sample (hex_face obj i)) [0..<6])
       (replicate 8 (1 / 128) @ replicate 12 (7 / 192) @ replicate 6 (1 / 12))"
  by (simp add: get_default_quadrature_hex_def vertices_per_cell_def lines_per_cell_def
      faces_per_cell_def edge_sample_def face_sample_def eval_nat_numeral Let_def)

lemma pull_back_loop:
  "n \<le> length xs \<Longrightarrow> length cp = length xs \<Longrightarrow>
   fold (\<lambda>i cp. cp[i := f (xs ! i)]) [0..<n] cp = map f (take n xs) @ drop n cp"
proof (induction n)
  case 0
  then show ?case by simp
next
  case (Suc n)
  then show ?case
    by (simp add: take_Suc_conv_app_nth list_update_append Cons_nth_drop_Suc [symmetric])
qed

lemma sum_squares_zero:
  "sum_list (map (\<lambda>x. x * x) p) = 0 \<longleftrightarrow> (\<forall>x\<in>set p. x = 0)" for p :: "real list"
proof (induction p)
  case Nil
  then show ?case by simp
next
  case (Cons a p)
  have "0 \<le> sum_list (map (\<lambda>x. x * x) p)"
    by (rule sum_list_nonneg) auto
  then have "a * a + sum_list (map (\<lambda>x. x * x) p) = 0
               \<longleftrightarrow> a = 0 \<and> sum_list (map (\<lambda>x. x * x) p) = 0"
    by (simp add: add_nonneg_eq_0_iff)
  with Cons show ?case by simp
qed

lemma norm_point_nonzero: "norm_point p \<noteq> 0 \<longleftrightarrow> (\<exists>x\<in>set p. x \<noteq> 0)"
  by (simp add: norm_point_def sum_squares_zero)

lemma periodic_box_step_fails:
  "periodicity ! d > 0 \<Longrightarrow> \<not> sp ! i ! d < periodicity ! d + tolerance \<Longrightarrow>
   periodic_box_step periodicity sp i d (Inr m)
     = Inl (ExcMessage ''One of the points does not lye into the periodic box! Bailing out.'')"
  by (simp add: periodic_box_step_def Assert_def Let_def)

lemma periodic_box_inner_stays_failed:
  "fold (\<lambda>d state. periodic_box_step periodicity sp i d state) ds (Inl exc) = Inl exc"
  by (induction ds) (simp_all add: periodic_box_step_def)

lemma periodic_box_outer_stays_failed:
  "fold (\<lambda>i state. fold (\<lambda>d state. periodic_box_step periodicity sp i d state) ds state)
     is (Inl exc) = Inl exc"
  by (induction "is") (simp_all add: periodic_box_inner_stays_failed)

lemma periodic_box_inner_fails:
  assumes "\<exists>d<k. periodicity ! d > 0 \<and> \<not> sp ! i ! d < periodicity ! d + tolerance"
  shows "fold (\<lambda>d state. periodic_box_step periodicity sp i d state) [0..<k] (Inr m)
           = Inl (ExcMessage ''One of the points does not lye into the periodic box! Bailing out.'')"
  using assms
proof (induction k)
  case 0
  then show ?case by simp
next
  case (Suc k)
  show ?case
  proof (cases "\<exists>d<k. periodicity ! d > 0 \<and> \<not> sp ! i ! d < periodicity ! d + tolerance")
    case True
    with Suc.IH show ?thesis
      by (simp add: periodic_box_step_def)
  next
    case False
    with Suc.prems have bad: "periodicity ! k > 0" "\<not> sp ! i ! k < periodicity ! k + tolerance"
      by (auto simp: less_Suc_eq)
    from False have "\<forall>d<k. periodicity ! d > 0 \<longrightarrow> sp ! i ! d < periodicity ! d + tolerance"
      by blast
    from periodic_box_inner [OF this, of m] obtain m' where
      "fold (\<lambda>d state. periodic_box_step periodicity sp i d state) [0..<k] (Inr m) = Inr m'"
      by blast
    with periodic_box_step_fails [OF bad, of m'] show ?thesis by simp
  qed
qed

lemma periodic_box_outer_fails:
  assumes "\<exists>i<n. \<exists>d<spacedim. periodicity ! d > 0 \<and> \<not> sp ! i ! d < periodicity ! d + tolerance"
    and "length m = spacedim"
  shows "fold (\<lambda>i state.
                 fold (\<lambda>d state. periodic_box_step periodicity sp i d state) [0..<spacedim] state)
           [0..<n] (Inr m)
           = Inl (ExcMessage ''One of the points does not lye into the periodic box! Bailing out.'')"
  using assms
proof (induction n)
  case 0
  then show ?case by simp
next
  case (Suc n)
  show ?case
  proof (cases "\<exists>i<n. \<exists>d<spacedim. periodicity ! d > 0
                   \<and> \<not> sp ! i ! d < periodicity ! d + tolerance")
    case True
    with Suc show ?thesis
      by (simp add: periodic_box_inner_stays_failed)
  next
    case False
    with Suc.prems(1)
    have bad: "\<exists>d<spacedim. periodicity ! d > 0 \<and> \<not> sp ! n ! d < periodicity ! d + tolerance"
      by (auto simp: less_Suc_eq)
    from False
    have "\<forall>i<n. \<forall>d<spacedim. periodicity ! d > 0 \<longrightarrow> sp ! i ! d < periodicity ! d + tolerance"
      by blast
    from periodic_box_outer [OF this Suc.prems(2)] obtain m' where
      "fold (\<lambda>i state.
               fold (\<lambda>d state. periodic_box_step periodicity sp i d state) [0..<spacedim] state)
         [0..<n] (Inr m) = Inr m'"
      by blast
    with periodic_box_inner_fails [OF bad, of m'] show ?thesis by simp
  qed
qed

lemma FlatManifold_rejects_beyond_period:
  assumes "length periodicity = spacedim"
    and "i < length (get_points quad)"
    and "d < spacedim"
    and "periodicity ! d > 0"
    and "periodicity ! d + tolerance \<le> get_points quad ! i ! d"
    and "DEBUG \<Longrightarrow> \<bar>sum_list (get_weights quad) - 1\<bar> < tolerance"
  shows "FlatManifold_get_new_point DEBUG spacedim periodicity quad
           = Inl (ExcMessage ''One of the points does not lye into the periodic box! Bailing out.'')"
proof -
  have "periodicity ! d \<in> set periodicity"
    using assms(1,3) by simp
  moreover have "periodicity ! d \<noteq> 0"
    using assms(4) by simp
  ultimately have cp: "norm_point periodicity \<noteq> 0"
    unfolding norm_point_nonzero by blast
  have "\<exists>i<length (get_points quad). \<exists>d<spacedim.
          periodicity ! d > 0 \<and> \<not> get_points quad ! i ! d < periodicity ! d + tolerance"
    using assms(2-5) by (auto simp: not_less)
  from periodic_box_outer_fails [OF this assms(1)]
  have "periodic_box_loop spacedim periodicity (get_points quad) periodicity
          = Inl (ExcMessage ''One of the points does not lye into the periodic box! Bailing out.'')"
    by (simp add: periodic_box_loop_def)
  with cp assms(6) show ?thesis
    by (simp add: FlatManifold_get_new_point_def check_weights_def Assert_def Let_def weights_sum_sum_list)
qed

section \<open>Auxiliary facts about binary64 rounding\<close>

lemma bitlen_numeral: "bitlen (numeral n) = bitlen (numeral n div 2) + 1"
  by (subst compute_bitlen) simp

lemma bitlen_one: "bitlen 1 = 1"
  by (subst compute_bitlen) simp

lemmas round64_eval = round64_def exponent_def round_to_even_def max_double_def
  bitlen_numeral bitlen_one Let_def

lemma exponent_bounds:
  assumes "x \<noteq> 0"
  shows "2 powi exponent x \<le> \<bar>x\<bar>" and "\<bar>x\<bar> < 2 powi (exponent x + 1)"
proof -
  have "2 powi exponent x \<le> \<bar>x\<bar> \<and> \<bar>x\<bar> < 2 powi (exponent x + 1)"
  proof (cases "\<bar>x\<bar> \<ge> 1")
    case True
    define n where "n = \<lfloor>\<bar>x\<bar>\<rfloor>"
    have n: "n > 0" using True by (simp add: n_def)
    have b: "bitlen n \<ge> 1" using n by (auto simp: bitlen_alt_def)
    have e: "exponent x = bitlen n - 1"
      using True by (simp add: exponent_def n_def)
    from bitlen_bounds [OF n]
    have lo: "(2::int) ^ nat (bitlen n - 1) \<le> n" and hi: "n < 2 ^ nat (bitlen n)" by auto
    have "2 powi (bitlen n - 1) = (2::real) ^ nat (bitlen n - 1)"
      using b by (simp add: power_int_nonneg_exp)
    also have "\<dots> = of_int (2 ^ nat (bitlen n - 1))" by simp
    also have "\<dots> \<le> of_int n" using lo by (simp only: of_int_le_iff)
    also have "\<dots> \<le> \<bar>x\<bar>" by (simp add: n_def)
    finally have 1: "2 powi exponent x \<le> \<bar>x\<bar>" by (simp add: e)
    have "\<bar>x\<bar> < of_int (n + 1)" by (simp add: n_def)
    also have "of_int (n + 1) \<le> (of_int (2 ^ nat (bitlen n)) :: real)"
    proof -
      have "n + 1 \<le> 2 ^ nat (bitlen n)" using hi by simp
      then show ?thesis by (simp only: of_int_le_iff)
    qed
    also have "\<dots> = 2 powi (bitlen n)"
      using b by (simp add: power_int_nonneg_exp)
    finally have "\<bar>x\<bar> < 2 powi (exponent x + 1)" by (simp add: e)
    with 1 show ?thesis by simp
  next
    case False
    define a where "a = 1 / \<bar>x\<bar>"
    define m where "m = \<lceil>a\<rceil> - 1"
    have xpos: "0 < \<bar>x\<bar>" using assms by simp
    have a1: "1 < a" using False xpos by (simp add: a_def)
    then have m: "m > 0" by (simp add: m_def less_ceiling_iff)
    have ma: "of_int m < a" "a \<le> of_int m + 1"
      by (simp_all add: m_def) linarith+
    have b: "bitlen m \<ge> 1" using m by (auto simp: bitlen_alt_def)
    have e: "exponent x = - bitlen m"
      using False by (simp add: exponent_def m_def a_def)
    from bitlen_bounds [OF m]
    have lo: "(2::int) ^ nat (bitlen m - 1) \<le> m" and hi: "m < 2 ^ nat (bitlen m)" by auto
    have "a \<le> of_int (m + 1)" using ma by simp
    also have "of_int (m + 1) \<le> (of_int (2 ^ nat (bitlen m)) :: real)"
    proof -
      have "m + 1 \<le> 2 ^ nat (bitlen m)" using hi by simp
      then show ?thesis by (simp only: of_int_le_iff)
    qed
    finally have "a \<le> 2 ^ nat (bitlen m)" by simp
    then have "1 / 2 ^ nat (bitlen m) \<le> \<bar>x\<bar>"
      using xpos by (simp add: a_def field_simps)
    moreover have "2 powi (- bitlen m) = 1 / (2::real) ^ nat (bitlen m)"
      using b by (simp add: power_int_minus_divide power_int_nonneg_exp)
    ultimately have 1: "2 powi exponent x \<le> \<bar>x\<bar>" by (simp add: e)
    have "(2::real) ^ nat (bitlen m - 1) = of_int (2 ^ nat (bitlen m - 1))" by simp
    also have "\<dots> \<le> of_int m"
      using lo by (simp only: of_int_le_iff)
    finally have "(2::real) ^ nat (bitlen m - 1) \<le> of_int m" .
    with ma have "2 ^ nat (bitlen m - 1) < a" by linarith
    then have "\<bar>x\<bar> < 1 / 2 ^ nat (bitlen m - 1)"
      using xpos by (simp add: a_def field_simps)
    moreover have "2 powi (- bitlen m + 1) = 1 / (2::real) ^ nat (bitlen m - 1)"
    proof -
      have "- bitlen m + 1 = - (bitlen m - 1)" by simp
      then show ?thesis
        using b by (simp only: power_int_minus_divide) (simp add: power_int_nonneg_exp)
    qed
    ultimately have "\<bar>x\<bar> < 2 powi (exponent x + 1)" by (simp add: e)
    with 1 show ?thesis by simp
  qed
  then show "2 powi exponent x \<le> \<bar>x\<bar>" and "\<bar>x\<bar> < 2 powi (exponent x + 1)" by simp_all
qed

lemma round_to_even_error: "\<bar>of_int (round_to_even y) - y\<bar> \<le> 1 / 2"
proof -
  have "of_int \<lfloor>y\<rfloor> \<le> y" "y < of_int \<lfloor>y\<rfloor> + 1" by linarith+
  then show ?thesis
    by (auto simp: round_to_even_def Let_def)
qed

lemma round_to_even_of_int: "round_to_even (of_int k) = k"
  by (simp add: round_to_even_def)

lemma round_to_even_ge: "of_int k \<le> y \<Longrightarrow> k \<le> round_to_even y"
proof -
  assume "of_int k \<le> y"
  then have "k \<le> \<lfloor>y\<rfloor>" by (simp add: le_floor_iff)
  then show ?thesis by (auto simp: round_to_even_def Let_def)
qed

lemma round_to_even_le: "y \<le> of_int k \<Longrightarrow> round_to_even y \<le> k"
proof -
  assume le: "y \<le> of_int k"
  show ?thesis
  proof (cases "y = of_int k")
    case True
    then show ?thesis by (simp add: round_to_even_of_int)
  next
    case False
    with le have "y < of_int k" by simp
    then have "\<lfloor>y\<rfloor> < k" by (simp add: floor_less_iff)
    then show ?thesis by (auto simp: round_to_even_def Let_def)
  qed
qed

lemma power_int_2_less_exp: "(2::real) powi a < 2 powi b \<Longrightarrow> a < b"
  by (rule ccontr) (use power_int_increasing [of b a "2::real"] in auto)

lemma power_int_2_split: "(2::real) powi (a + b) = 2 powi a * 2 powi b"
  by (simp add: power_int_add)

lemma quantum_scale: "(2::real) ^ 53 * 2 powi (a - 52) = 2 powi (a + 1)"
proof -
  have "a + 1 = 53 + (a - 52)" by simp
  then have "(2::real) powi (a + 1) = 2 powi 53 * 2 powi (a - 52)"
    by (simp only: power_int_2_split)
  then show ?thesis by simp
qed

lemma round64_zero: "round64 0 = Finite 0"
  by (simp add: round64_def)

lemma round64_FiniteD:
  assumes "round64 x = Finite y" and "x \<noteq> 0"
  shows "y = of_int (round_to_even (x / 2 powi (max (exponent x) (- 1022) - 52)))
               * 2 powi (max (exponent x) (- 1022) - 52)"
    and "\<bar>y\<bar> \<le> max_double"
  using assms by (auto simp: round64_def Let_def split: if_splits)

lemma round64_FiniteI:
  assumes "x \<noteq> 0"
    and "\<bar>of_int (round_to_even (x / 2 powi (max (exponent x) (- 1022) - 52)))
               * 2 powi (max (exponent x) (- 1022) - 52)\<bar> \<le> max_double"
  shows "round64 x = Finite (of_int (round_to_even (x / 2 powi (max (exponent x) (- 1022) - 52)))
               * 2 powi (max (exponent x) (- 1022) - 52))"
  using assms by (simp add: round64_def Let_def)

lemma max_double_pos: "0 < max_double"
  by (simp add: max_double_def)

lemma round64_bounded: "round64 x = Finite y \<Longrightarrow> \<bar>y\<bar> \<le> max_double"
  using round64_FiniteD(2) [of x y] max_double_pos
  by (cases "x = 0") (auto simp: round64_zero)

lemma round64_error:
  assumes r: "round64 x = Finite y" and normal: "2 powi (- 1022) \<le> \<bar>x\<bar>"
  shows "\<bar>y - x\<bar> \<le> \<bar>x\<bar> / 2 ^ 53"
proof -
  have x: "x \<noteq> 0" using normal by auto
  define e where "e = exponent x"
  define q where "q = (2::real) powi (e - 52)"
  have "(2::real) powi (- 1022) < 2 powi (e + 1)"
    using normal exponent_bounds(2) [OF x] by (simp add: e_def)
  then have "- 1022 < e + 1" by (rule power_int_2_less_exp)
  then have e': "max e (- 1022) = e" by simp
  have qpos: "0 < q" by (simp add: q_def)
  from round64_FiniteD(1) [OF r x]
  have y: "y = of_int (round_to_even (x / q)) * q"
    by (simp add: e_def [symmetric] e' q_def)
  have "\<bar>y - x\<bar> = \<bar>of_int (round_to_even (x / q)) - x / q\<bar> * q"
  proof -
    have "y - x = (of_int (round_to_even (x / q)) - x / q) * q"
      using qpos by (simp add: y field_simps)
    then show ?thesis using qpos by (simp add: abs_mult)
  qed
  also have "\<dots> \<le> (1 / 2) * q"
    using round_to_even_error [of "x / q"] qpos by (intro mult_right_mono) simp_all
  also have "\<dots> = 2 powi e / 2 ^ 53"
  proof -
    have "(2::real) powi (e - 52) = 2 powi e * 2 powi (- 52)"
      using power_int_2_split [of e "- 52"] by simp
    then show ?thesis by (simp add: q_def power_int_minus_divide)
  qed
  also have "\<dots> \<le> \<bar>x\<bar> / 2 ^ 53"
    using exponent_bounds(1) [OF x] by (simp add: e_def divide_right_mono)
  finally show ?thesis .
qed

lemma round64_on_grid:
  assumes "round64 x = Finite y"
  shows "on_grid y"
proof (cases "x = 0")
  case True
  with assms have "y = 0" by (simp add: round64_zero)
  then show ?thesis unfolding on_grid_def by (intro exI [of _ 0]) simp
next
  case False
  define e where "e = max (exponent x) (- 1022)"
  have e: "0 \<le> e + 1022" by (simp add: e_def)
  have "(2::real) powi (e - 52) = 2 powi (e + 1022) * 2 powi (- 1074)"
    using power_int_2_split [of "e + 1022" "- 1074"] by simp
  also have "(2::real) powi (e + 1022) = of_int (2 ^ nat (e + 1022))"
    using e by (simp add: power_int_nonneg_exp)
  finally have q: "(2::real) powi (e - 52) = of_int (2 ^ nat (e + 1022)) * 2 powi (- 1074)" .
  from round64_FiniteD(1) [OF assms False]
  have "y = of_int (round_to_even (x / 2 powi (e - 52)) * 2 ^ nat (e + 1022)) * 2 powi (- 1074)"
    unfolding e_def [symmetric] by (subst (asm) (2) q) simp
  then show ?thesis unfolding on_grid_def by blast
qed

lemma round64_finite:
  assumes "\<bar>x\<bar> \<le> max_double"
  shows "\<exists>y. round64 x = Finite y"
proof (cases "x = 0")
  case True
  then show ?thesis by (simp add: round64_zero)
next
  case x: False
  define e where "e = exponent x"
  define e' where "e' = max e (- 1022)"
  define q where "q = (2::real) powi (e' - 52)"
  define n where "n = round_to_even (x / q)"
  have qpos: "0 < q" by (simp add: q_def)
  have "\<bar>of_int n * q\<bar> \<le> max_double"
  proof (cases "e' \<le> 1022")
    case True
    have "\<bar>x\<bar> < 2 powi (e + 1)"
      using exponent_bounds(2) [OF x] by (simp add: e_def)
    also have "\<dots> \<le> 2 powi (e' + 1)"
      by (intro power_int_increasing) (simp_all add: e'_def)
    also have "\<dots> = 2 ^ 53 * q"
      by (simp only: q_def quantum_scale)
    finally have "\<bar>x / q\<bar> < 2 ^ 53"
      using qpos by (simp add: field_simps)
    then have "x / q \<le> 2 ^ 53" "- (2 ^ 53) \<le> x / q"
      by linarith+
    then have up: "x / q \<le> of_int (2 ^ 53)" and dn: "of_int (- (2 ^ 53)) \<le> x / q"
      by simp_all
    have "n \<le> 2 ^ 53"
      unfolding n_def by (rule round_to_even_le) (rule up)
    moreover have "- (2 ^ 53) \<le> n"
      unfolding n_def by (rule round_to_even_ge) (rule dn)
    ultimately have "n \<le> 2 ^ 53" "- (2 ^ 53) \<le> n" by simp_all
    then have "\<bar>of_int n :: real\<bar> \<le> 2 ^ 53" by (simp add: abs_le_iff)
    then have "\<bar>of_int n * q\<bar> \<le> 2 ^ 53 * q"
      using qpos by (simp add: abs_mult)
    also have "\<dots> = 2 powi (e' + 1)"
      by (simp only: q_def quantum_scale)
    also have "\<dots> \<le> 2 powi 1023"
      using True by (intro power_int_increasing) simp_all
    also have "\<dots> \<le> max_double" by (simp add: max_double_def)
    finally show ?thesis .
  next
    case False
    then have ee: "e' = e" by (simp add: e'_def)
    have "2 powi e \<le> \<bar>x\<bar>"
      using exponent_bounds(1) [OF x] by (simp add: e_def)
    also have "\<bar>x\<bar> \<le> max_double" by fact
    also have "max_double < 2 powi 1024" by (simp add: max_double_def)
    finally have "e < 1024" by (rule power_int_2_less_exp)
    with False ee have e: "e' = 1023" by simp
    have q: "q = 2 ^ 971" by (simp add: q_def e)
    have "\<bar>x / q\<bar> \<le> 2 ^ 53 - 1"
      using assms by (simp add: q max_double_def field_simps)
    then have "x / q \<le> 2 ^ 53 - 1" "- (2 ^ 53 - 1) \<le> x / q"
      by linarith+
    then have up: "x / q \<le> of_int (2 ^ 53 - 1)" and dn: "of_int (- (2 ^ 53 - 1)) \<le> x / q"
      by simp_all
    have "n \<le> 2 ^ 53 - 1"
      unfolding n_def by (rule round_to_even_le) (rule up)
    moreover have "- (2 ^ 53 - 1) \<le> n"
      unfolding n_def by (rule round_to_even_ge) (rule dn)
    ultimately have "n \<le> 2 ^ 53 - 1" "- (2 ^ 53 - 1) \<le> n" by simp_all
    then have "\<bar>of_int n :: real\<bar> \<le> 2 ^ 53 - 1" by (simp add: abs_le_iff)
    then have "\<bar>of_int n * q\<bar> \<le> (2 ^ 53 - 1) * q"
      using qpos by (simp add: abs_mult)
    then show ?thesis by (simp add: q max_double_def)
  qed
  then show ?thesis
    using round64_FiniteI [OF x] by (simp add: n_def q_def e'_def e_def)
qed

lemma round64_nonneg:
  assumes "0 \<le> x"
  shows "round64 x \<noteq> MinusInfinity" and "round64 x \<noteq> NaN"
    and "round64 x = Finite y \<Longrightarrow> 0 \<le> y"
proof -
  show "round64 x \<noteq> MinusInfinity" "round64 x \<noteq> NaN"
    using assms by (auto simp: round64_def Let_def)
  assume r: "round64 x = Finite y"
  show "0 \<le> y"
  proof (cases "x = 0")
    case True
    with r show ?thesis by (simp add: round64_zero)
  next
    case False
    define q where "q = (2::real) powi (max (exponent x) (- 1022) - 52)"
    have qpos: "0 < q" by (simp add: q_def)
    then have "of_int 0 \<le> x / q" using assms by simp
    then have "0 \<le> round_to_even (x / q)" by (rule round_to_even_ge)
    then show ?thesis
      using round64_FiniteD(1) [OF r False] qpos by (simp add: q_def [symmetric])
  qed
qed

lemma on_grid_add: "on_grid a \<Longrightarrow> on_grid b \<Longrightarrow> on_grid (a + b)"
proof -
  assume "on_grid a" "on_grid b"
  then obtain k l :: int where "a = of_int k * 2 powi (- 1074)" "b = of_int l * 2 powi (- 1074)"
    unfolding on_grid_def by blast
  then have "a + b = of_int (k + l) * 2 powi (- 1074)"
    by (simp add: algebra_simps)
  then show ?thesis unfolding on_grid_def by blast
qed

lemma round64_subnormal_exact:
  assumes "on_grid a" and small: "\<bar>a\<bar> < 2 powi (- 1022)"
  shows "round64 a = Finite a"
proof (cases "a = 0")
  case True
  then show ?thesis by (simp add: round64_zero)
next
  case a: False
  from assms(1) obtain k :: int where k: "a = of_int k * 2 powi (- 1074)"
    unfolding on_grid_def by blast
  have "2 powi exponent a < (2::real) powi (- 1022)"
    using exponent_bounds(1) [OF a] small by simp
  then have "exponent a < - 1022" by (rule power_int_2_less_exp)
  then have e: "max (exponent a) (- 1022) - 52 = - 1074" by simp
  have "a / 2 powi (- 1074) = of_int k"
    by (simp add: k)
  then have v: "of_int (round_to_even (a / 2 powi (- 1074))) * 2 powi (- 1074) = a"
    by (simp only: round_to_even_of_int k)
  have "(2::real) powi (- 1022) \<le> 2 powi 0"
    by (intro power_int_increasing) simp_all
  also have "\<dots> \<le> max_double" by (simp add: max_double_def)
  finally have "\<bar>a\<bar> \<le> max_double" using small by simp
  with round64_FiniteI [OF a] show ?thesis
    by (simp only: e v)
qed

lemma round64_add_error:
  assumes "on_grid a" and "on_grid b" and r: "round64 (a + b) = Finite y"
  shows "\<bar>y - (a + b)\<bar> \<le> \<bar>a + b\<bar> / 2 ^ 53"
proof (cases "2 powi (- 1022) \<le> \<bar>a + b\<bar>")
  case True
  with r show ?thesis by (rule round64_error)
next
  case False
  then have "\<bar>a + b\<bar> < 2 powi (- 1022)" by simp
  with on_grid_add [OF assms(1,2)] have "round64 (a + b) = Finite (a + b)"
    by (rule round64_subnormal_exact)
  with r show ?thesis by simp
qed

lemma round64_ge_representable:
  assumes L: "round64 L = Finite L" and pos: "0 < L" and le: "L \<le> x"
    and r: "round64 x = Finite y"
  shows "L \<le> y"
proof -
  have x: "x \<noteq> 0" and l: "L \<noteq> 0" using pos le by auto
  define eL where "eL = max (exponent L) (- 1022)"
  define ex where "ex = max (exponent x) (- 1022)"
  have yv: "y = of_int (round_to_even (x / 2 powi (ex - 52))) * 2 powi (ex - 52)"
    using round64_FiniteD(1) [OF r x] by (simp add: ex_def)
  have Lv: "L = of_int (round_to_even (L / 2 powi (eL - 52))) * 2 powi (eL - 52)"
    using round64_FiniteD(1) [OF L l] by (simp add: eL_def)
  have "2 powi exponent L \<le> \<bar>L\<bar>" by (rule exponent_bounds(1) [OF l])
  also have "\<bar>L\<bar> \<le> \<bar>x\<bar>" using pos le by simp
  also have "\<bar>x\<bar> < 2 powi (exponent x + 1)" by (rule exponent_bounds(2) [OF x])
  finally have "exponent L < exponent x + 1" by (rule power_int_2_less_exp)
  then have ee: "eL \<le> ex" by (simp add: eL_def ex_def)
  have qpos: "0 < (2::real) powi (ex - 52)" by simp
  show ?thesis
  proof (cases "eL = ex")
    case True
    define n where "n = round_to_even (L / 2 powi (ex - 52))"
    have Ln: "L = of_int n * 2 powi (ex - 52)"
      using Lv unfolding True n_def [symmetric] .
    have "of_int n * 2 powi (ex - 52) / 2 powi (ex - 52) = (of_int n :: real)"
      by simp
    then have "L / 2 powi (ex - 52) = of_int n"
      by (simp only: Ln [symmetric])
    moreover have "L / 2 powi (ex - 52) \<le> x / 2 powi (ex - 52)"
      using le qpos by (intro divide_right_mono) simp_all
    ultimately have "of_int n \<le> x / 2 powi (ex - 52)" by simp
    then have "n \<le> round_to_even (x / 2 powi (ex - 52))" by (rule round_to_even_ge)
    then have "of_int n * 2 powi (ex - 52) \<le> y"
      unfolding yv using qpos by (intro mult_right_mono) simp_all
    with Ln show ?thesis by simp
  next
    case False
    with ee have lt: "eL < ex" by simp
    then have exx: "ex = exponent x" unfolding ex_def eL_def by linarith
    have "exponent L + 1 \<le> ex" using lt unfolding eL_def by linarith
    then have "(2::real) powi (exponent L + 1) \<le> 2 powi ex"
      by (intro power_int_increasing) simp_all
    with exponent_bounds(2) [OF l] pos have Llt: "L < 2 powi ex" by simp
    have s: "(2::real) powi ex = of_int (2 ^ 52) * 2 powi (ex - 52)"
      using power_int_2_split [of 52 "ex - 52"] by simp
    have "2 powi ex \<le> x"
      using exponent_bounds(1) [OF x] pos le by (simp add: exx)
    then have "of_int (2 ^ 52) \<le> x / 2 powi (ex - 52)"
      using qpos by (subst (asm) s) (simp add: field_simps)
    then have "2 ^ 52 \<le> round_to_even (x / 2 powi (ex - 52))" by (rule round_to_even_ge)
    then have "of_int (2 ^ 52) * 2 powi (ex - 52) \<le> y"
      unfolding yv using qpos by (intro mult_right_mono) simp_all
    with Llt s show ?thesis by simp
  qed
qed

lemma accumulate_step_arith:
  fixes u A X W r :: real
  assumes "0 \<le> u" "1 \<le> A" "0 \<le> X" "0 \<le> W" "0 \<le> r"
  shows "u * ((1 + u) * A * (X * (W + r))) + (A - 1) * (X * W) + u * (X * r)
           \<le> (A * (1 + u)\<^sup>2 - 1) * (X * (W + r))"
proof -
  have "(A * (1 + u)\<^sup>2 - 1) * (X * (W + r))
          - (u * ((1 + u) * A * (X * (W + r))) + (A - 1) * (X * W) + u * (X * r))
        = X * W * (u * A) + X * r * ((A - 1) + u * (A - 1))"
    by (simp add: algebra_simps power2_eq_square)
  moreover have "0 \<le> X * W * (u * A) + X * r * ((A - 1) + u * (A - 1))"
    using assms by (intro add_nonneg_nonneg mult_nonneg_nonneg) simp_all
  ultimately show ?thesis by linarith
qed

lemma round64_product_error:
  assumes r: "round64 p = Finite t" and normal: "p = 0 \<or> 2 powi (- 1022) \<le> \<bar>p\<bar>"
  shows "\<bar>t - p\<bar> \<le> \<bar>p\<bar> / 2 ^ 53"
proof (cases "p = 0")
  case True
  with r show ?thesis by (simp add: round64_zero)
next
  case False
  with normal have "2 powi (- 1022) \<le> \<bar>p\<bar>" by simp
  with r show ?thesis by (rule round64_error)
qed

lemma accumulate_b64_bound:
  fixes x :: real and rs :: "real list"
  defines "u \<equiv> 1 / 2 ^ 53"
  assumes nonneg: "\<forall>r\<in>set rs. 0 \<le> r"
    and normal: "\<forall>r\<in>set rs. x * r = 0 \<or> 2 powi (- 1022) \<le> \<bar>x * r\<bar>"
    and grid: "on_grid y"
    and err: "\<bar>y - x * W\<bar> \<le> ((1 + u) ^ (2 * k) - 1) * (\<bar>x\<bar> * W)"
    and W: "0 \<le> W"
    and sign: "0 \<le> x \<Longrightarrow> 0 \<le> y"
    and nover: "(1 + u) ^ (2 * (k + length rs)) * (\<bar>x\<bar> * (W + sum_list rs)) \<le> max_double"
  shows "\<exists>y'. fold (\<lambda>r s. fadd s (fmul (Finite x) (Finite r))) rs (Finite y) = Finite y'
            \<and> on_grid y'
            \<and> (0 \<le> x \<longrightarrow> 0 \<le> y')
            \<and> \<bar>y' - x * (W + sum_list rs)\<bar>
                \<le> ((1 + u) ^ (2 * (k + length rs)) - 1) * (\<bar>x\<bar> * (W + sum_list rs))"
  using nonneg normal grid err W sign nover
proof (induction rs arbitrary: y W k)
  case Nil
  then show ?case by simp
next
  case (Cons r rs)
  have u: "0 \<le> u" by (simp add: u_def)
  define A where "A = (1 + u) ^ (2 * k)"
  have A: "1 \<le> A" unfolding A_def using u by (intro one_le_power) simp
  have r: "0 \<le> r" and rs: "\<forall>r\<in>set rs. 0 \<le> r" using Cons.prems(1) by simp_all
  have S: "0 \<le> sum_list rs" using rs by (intro sum_list_nonneg) simp
  define X where "X = \<bar>x\<bar>"
  have X: "0 \<le> X" by (simp add: X_def)
  define B where "B = (1 + u) ^ (2 * (k + length (r # rs)))"
  have AB: "A * (1 + u)\<^sup>2 \<le> B"
  proof -
    have "A * (1 + u)\<^sup>2 = (1 + u) ^ (2 * k + 2)"
      by (simp add: A_def power_add power2_eq_square)
    also have "\<dots> \<le> B"
      unfolding B_def using u by (intro power_increasing) simp_all
    finally show ?thesis .
  qed
  have B1: "1 \<le> B" unfolding B_def using u by (intro one_le_power) simp
  have over: "B * (X * (W + r + sum_list rs)) \<le> max_double"
    using Cons.prems(7) by (simp add: B_def X_def add.assoc)
  have tot: "X * (W + r) \<le> X * (W + r + sum_list rs)"
    using X S by (intro mult_left_mono) simp_all
  have tot0: "0 \<le> X * (W + r)"
    using X r Cons.prems(5) by simp
  \<comment> \<open>the product\<close>
  have "\<bar>x * r\<bar> = X * r" using r by (simp add: X_def abs_mult)
  also have "\<dots> \<le> X * (W + r)"
    using X Cons.prems(5) by (intro mult_left_mono) simp_all
  also have "\<dots> \<le> B * (X * (W + r + sum_list rs))"
  proof -
    have "X * (W + r) \<le> 1 * (X * (W + r + sum_list rs))" using tot by simp
    also have "\<dots> \<le> B * (X * (W + r + sum_list rs))"
      using B1 tot tot0 by (intro mult_right_mono) linarith+
    finally show ?thesis .
  qed
  finally have "\<bar>x * r\<bar> \<le> max_double" using over by linarith
  then obtain t where t: "round64 (x * r) = Finite t"
    using round64_finite by blast
  have tg: "on_grid t" using t by (rule round64_on_grid)
  have terr: "\<bar>t - x * r\<bar> \<le> u * (X * r)"
  proof -
    have "x * r = 0 \<or> 2 powi (- 1022) \<le> \<bar>x * r\<bar>"
      using Cons.prems(2) by (meson list.set_intros(1))
    with t have "\<bar>t - x * r\<bar> \<le> \<bar>x * r\<bar> / 2 ^ 53" by (rule round64_product_error)
    then show ?thesis using r by (simp add: u_def X_def abs_mult)
  qed
  \<comment> \<open>the sum\<close>
  have yb: "\<bar>y\<bar> \<le> A * (X * W)"
  proof -
    have "\<bar>y\<bar> \<le> \<bar>y - x * W\<bar> + \<bar>x * W\<bar>" by linarith
    also have "\<bar>x * W\<bar> = X * W" using Cons.prems(5) by (simp add: X_def abs_mult)
    also have "\<bar>y - x * W\<bar> \<le> (A - 1) * (X * W)"
      using Cons.prems(4) by (simp add: A_def X_def)
    finally show ?thesis by (simp add: algebra_simps)
  qed
  have tb: "\<bar>t\<bar> \<le> (1 + u) * (X * r)"
  proof -
    have "\<bar>t\<bar> \<le> \<bar>t - x * r\<bar> + \<bar>x * r\<bar>" by linarith
    also have "\<bar>x * r\<bar> = X * r" using r by (simp add: X_def abs_mult)
    finally show ?thesis using terr by (simp add: algebra_simps)
  qed
  have ab: "\<bar>y + t\<bar> \<le> (1 + u) * A * (X * (W + r))"
  proof -
    have "\<bar>y + t\<bar> \<le> A * (X * W) + (1 + u) * (X * r)" using yb tb by linarith
    also have "A * (X * W) \<le> (1 + u) * A * (X * W)"
    proof -
      have "1 * (A * (X * W)) \<le> (1 + u) * (A * (X * W))"
        using u A X Cons.prems(5) by (intro mult_right_mono) simp_all
      then show ?thesis by (simp add: mult.assoc)
    qed
    also have "(1 + u) * (X * r) \<le> (1 + u) * A * (X * r)"
    proof -
      have "(1 + u) * (1 * (X * r)) \<le> (1 + u) * (A * (X * r))"
        using u A X r by (intro mult_left_mono mult_right_mono) simp_all
      then show ?thesis by (simp add: mult.assoc)
    qed
    finally show ?thesis by (simp add: algebra_simps)
  qed
  have "(1 + u) * A \<le> A * (1 + u)\<^sup>2"
  proof -
    have "A * (1 + u) * 1 \<le> A * (1 + u) * (1 + u)"
      using u A by (intro mult_left_mono) simp_all
    then show ?thesis by (simp add: power2_eq_square algebra_simps)
  qed
  with AB have "(1 + u) * A \<le> B" by linarith
  then have "(1 + u) * A * (X * (W + r)) \<le> B * (X * (W + r))"
    using tot0 by (intro mult_right_mono)
  also have "\<dots> \<le> B * (X * (W + r + sum_list rs))"
    by (rule mult_left_mono) (use B1 tot in simp_all)
  finally have "\<bar>y + t\<bar> \<le> max_double" using ab over by linarith
  then obtain y1 where y1: "round64 (y + t) = Finite y1"
    using round64_finite by blast
  have y1g: "on_grid y1" using y1 by (rule round64_on_grid)
  have y1s: "0 \<le> y1" if "0 \<le> x"
  proof -
    have "0 \<le> x * r" using that r by simp
    then have "0 \<le> t" using t round64_nonneg(3) by blast
    moreover have "0 \<le> y" using that Cons.prems(6) by simp
    ultimately have "0 \<le> y + t" by simp
    then show ?thesis using y1 round64_nonneg(3) by blast
  qed
  have y1e: "\<bar>y1 - (y + t)\<bar> \<le> u * \<bar>y + t\<bar>"
    using round64_add_error [OF Cons.prems(3) tg y1] by (simp add: u_def)
  have "x * (W + r) = x * W + x * r" by (simp add: algebra_simps)
  then have "\<bar>y1 - x * (W + r)\<bar> \<le> \<bar>y1 - (y + t)\<bar> + \<bar>y - x * W\<bar> + \<bar>t - x * r\<bar>"
    by linarith
  also have "\<dots> \<le> u * ((1 + u) * A * (X * (W + r))) + (A - 1) * (X * W) + u * (X * r)"
  proof -
    have "u * \<bar>y + t\<bar> \<le> u * ((1 + u) * A * (X * (W + r)))"
      using ab u by (intro mult_left_mono)
    moreover have "\<bar>y - x * W\<bar> \<le> (A - 1) * (X * W)"
      using Cons.prems(4) by (simp add: A_def X_def)
    ultimately show ?thesis using y1e terr by linarith
  qed
  also have "\<dots> \<le> (A * (1 + u)\<^sup>2 - 1) * (X * (W + r))"
    using u A X Cons.prems(5) r by (rule accumulate_step_arith)
  finally have e1: "\<bar>y1 - x * (W + r)\<bar> \<le> ((1 + u) ^ (2 * Suc k) - 1) * (\<bar>x\<bar> * (W + r))"
    by (simp add: A_def X_def power_add power2_eq_square algebra_simps)
  have step: "fadd (Finite y) (fmul (Finite x) (Finite r)) = Finite y1"
    by (simp add: t y1)
  have over': "(1 + u) ^ (2 * (Suc k + length rs)) * (\<bar>x\<bar> * ((W + r) + sum_list rs)) \<le> max_double"
    using over by (simp add: B_def X_def)
  have normal_rs: "\<forall>r\<in>set rs. x * r = 0 \<or> 2 powi (- 1022) \<le> \<bar>x * r\<bar>"
    using Cons.prems(2) by (meson list.set_intros(2))
  have Wr: "0 \<le> W + r" using Cons.prems(5) r by simp
  from Cons.IH [OF rs normal_rs y1g e1 Wr y1s over']
  obtain y' where
    "fold (\<lambda>r s. fadd s (fmul (Finite x) (Finite r))) rs (Finite y1) = Finite y'"
    "on_grid y'" "0 \<le> x \<longrightarrow> 0 \<le> y'"
    "\<bar>y' - x * ((W + r) + sum_list rs)\<bar>
       \<le> ((1 + u) ^ (2 * (Suc k + length rs)) - 1) * (\<bar>x\<bar> * ((W + r) + sum_list rs))"
    by blast
  then show ?case
    by (intro exI [of _ y']) (simp add: t y1 add.assoc)
qed

section \<open>Auxiliary facts about the loops over binary64\<close>

lemma tolerance_b64_value: "tolerance_b64 = Finite (7737125245533627 / 2 ^ 86)"
  by (simp add: tolerance_b64_def round64_eval)

lemma fold_map2_length:
  assumes "length p0 = n" and "\<forall>i<m. length (g i) = n"
  shows "length (fold (\<lambda>i p. map2 f p (g i)) [0..<m] p0) = n"
  using assms by (induction m) simp_all

lemma fold_map2_nth:
  assumes "length p0 = n" and "\<forall>i<m. length (g i) = n" and "d < n"
  shows "fold (\<lambda>i p. map2 f p (g i)) [0..<m] p0 ! d
           = fold (\<lambda>i a. f a (g i ! d)) [0..<m] (p0 ! d)"
  using assms by (induction m) (simp_all add: fold_map2_length)

lemma fold_index_list: "fold (\<lambda>i. f (xs ! i)) [0..<length xs] = fold f xs"
proof -
  have "fold f (map (\<lambda>i. xs ! i) [0..<length xs]) = fold (\<lambda>i. f (xs ! i)) [0..<length xs]"
    by (simp add: fold_map comp_def)
  then show ?thesis by (simp only: map_nth)
qed

lemma periodic_box_step_b64_passes:
  "(fless (Finite 0) (periodicity ! d) \<Longrightarrow>
      fless (sp ! i ! d) (fadd (periodicity ! d) tolerance_b64)) \<Longrightarrow>
   periodic_box_step_b64 periodicity sp i d (Inr m) = Inr (m[d := fmin (m ! d) (sp ! i ! d)])"
  by (simp add: periodic_box_step_b64_def Assert_def Let_def)

lemma periodic_box_inner_b64:
  assumes "\<forall>d<k. fless (Finite 0) (periodicity ! d) \<longrightarrow>
             fless (sp ! i ! d) (fadd (periodicity ! d) tolerance_b64)"
  shows "\<exists>m'. fold (\<lambda>d state. periodic_box_step_b64 periodicity sp i d state) [0..<k] (Inr m)
                 = Inr m'
            \<and> length m' = length m
            \<and> (\<forall>j<length m. m' ! j = (if j < k then fmin (m ! j) (sp ! i ! j) else m ! j))"
  using assms
proof (induction k)
  case 0
  then show ?case by simp
next
  case (Suc k)
  then obtain m' where m':
    "fold (\<lambda>d state. periodic_box_step_b64 periodicity sp i d state) [0..<k] (Inr m) = Inr m'"
    "length m' = length m"
    "\<forall>j<length m. m' ! j = (if j < k then fmin (m ! j) (sp ! i ! j) else m ! j)"
    by auto
  let ?m = "m'[k := fmin (m' ! k) (sp ! i ! k)]"
  have ok: "fless (Finite 0) (periodicity ! k) \<Longrightarrow>
              fless (sp ! i ! k) (fadd (periodicity ! k) tolerance_b64)"
    using Suc.prems by simp
  have "fold (\<lambda>d state. periodic_box_step_b64 periodicity sp i d state) [0..<Suc k] (Inr m)
          = Inr ?m"
    using m'(1) periodic_box_step_b64_passes [OF ok, of m'] by simp
  moreover have "length ?m = length m"
    using m'(2) by simp
  moreover have "\<forall>j<length m. ?m ! j = (if j < Suc k then fmin (m ! j) (sp ! i ! j) else m ! j)"
    using m'(2,3) by (auto simp: nth_list_update less_Suc_eq)
  ultimately show ?case by blast
qed

lemma periodic_box_outer_b64:
  assumes "\<forall>i<n. \<forall>d<spacedim. fless (Finite 0) (periodicity ! d) \<longrightarrow>
             fless (sp ! i ! d) (fadd (periodicity ! d) tolerance_b64)"
    and "length m = spacedim"
  shows "\<exists>m'. fold (\<lambda>i state.
                   fold (\<lambda>d state. periodic_box_step_b64 periodicity sp i d state)
                     [0..<spacedim] state)
                 [0..<n] (Inr m) = Inr m'
            \<and> length m' = spacedim
            \<and> (\<forall>j<spacedim. m' ! j = fold (\<lambda>i a. fmin a (sp ! i ! j)) [0..<n] (m ! j))"
  using assms
proof (induction n)
  case 0
  then show ?case by simp
next
  case (Suc n)
  then obtain m' where m':
    "fold (\<lambda>i state.
             fold (\<lambda>d state. periodic_box_step_b64 periodicity sp i d state) [0..<spacedim] state)
       [0..<n] (Inr m) = Inr m'"
    "length m' = spacedim"
    "\<forall>j<spacedim. m' ! j = fold (\<lambda>i a. fmin a (sp ! i ! j)) [0..<n] (m ! j)"
    by auto
  have "\<forall>d<spacedim. fless (Finite 0) (periodicity ! d) \<longrightarrow>
          fless (sp ! n ! d) (fadd (periodicity ! d) tolerance_b64)"
    using Suc.prems by simp
  from periodic_box_inner_b64 [OF this, of m'] m'(2)
  obtain m'' where m'':
    "fold (\<lambda>d state. periodic_box_step_b64 periodicity sp n d state) [0..<spacedim] (Inr m')
       = Inr m''"
    "length m'' = spacedim"
    "\<forall>j<spacedim. m'' ! j = fmin (m' ! j) (sp ! n ! j)"
    by auto
  show ?case
    using m'(1,3) m'' by simp
qed

lemma fold_fmin_constant:
  assumes "x < L" and "0 < n"
  shows "fold (\<lambda>i a. fmin a (Finite x)) [0..<n] (Finite L) = Finite x"
proof -
  have "fold (\<lambda>i a. fmin a (Finite x)) [0..<Suc k] (Finite L) = Finite x" for k
    using assms(1) by (induction k) (simp_all add: fmin_def)
  from this [of "n - 1"] assms(2) show ?thesis by simp
qed

lemma in_box_passes_check:
  assumes L: "binary64 L" and pos: "0 < L" and x: "x < L"
  shows "fless (Finite x) (fadd (Finite L) tolerance_b64)"
proof -
  let ?a = "L + 7737125245533627 / 2 ^ 86"
  have a: "L \<le> ?a" "0 \<le> ?a" using pos by simp_all
  have r: "fadd (Finite L) tolerance_b64 = round64 ?a"
    by (simp add: tolerance_b64_value)
  show ?thesis
  proof (cases "round64 ?a")
    case (Finite y)
    with round64_ge_representable [OF _ pos a(1) Finite] L have "L \<le> y"
      by (simp add: binary64_def)
    with x Finite r show ?thesis by simp
  next
    case PlusInfinity
    with r show ?thesis by simp
  next
    case MinusInfinity
    with round64_nonneg(1) [OF a(2)] show ?thesis by simp
  next
    case NaN
    with round64_nonneg(2) [OF a(2)] show ?thesis by simp
  qed
qed

lemma no_wrap_at_minimum:
  assumes "0 < L"
  shows "\<not> fless (fdiv2 (Finite L)) (fsub (Finite x) (Finite x))"
proof -
  have z: "fsub (Finite x) (Finite x) = Finite 0"
    by (simp add: fsub_def round64_zero)
  have h: "0 \<le> L / 2" using assms by simp
  show ?thesis
  proof (cases "round64 (L / 2)")
    case (Finite y)
    with round64_nonneg(3) [OF h] have "0 \<le> y" by simp
    with Finite z show ?thesis by simp
  next
    case PlusInfinity
    with z show ?thesis by simp
  next
    case MinusInfinity
    with round64_nonneg(1) [OF h] show ?thesis by simp
  next
    case NaN
    with round64_nonneg(2) [OF h] show ?thesis by simp
  qed
qed

section \<open>Evaluation at concrete inputs\<close>

lemma upt_small:
  "[0..<1] = [0]" "[0..<2] = [0, 1]" "[0..<8] = [0, 1, 2, 3, 4, 5, 6, 7]"
  by (simp_all add: upt_rec)

lemma nth_small:
  "(x # xs) ! 1 = xs ! 0" "(x # xs) ! 2 = xs ! 1" "(x # xs) ! 3 = xs ! 2" "(x # xs) ! 4 = xs ! 3"
  "(x # xs) ! 5 = xs ! 4" "(x # xs) ! 6 = xs ! 5" "(x # xs) ! 7 = xs ! 6"
  by simp_all

lemma literal_0_1: "round64 (1 / 10) = Finite (3602879701896397 / 2 ^ 55)"
  by (simp add: round64_eval)

lemma literal_0_9: "round64 (9 / 10) = Finite (8106479329266893 / 2 ^ 53)"
  by (simp add: round64_eval)

lemma norm_b64_unit: "norm_b64 [Finite 1] = Finite 1"
  by (simp add: norm_b64_def round64_eval)

lemma wrap_example_box:
  "periodic_box_loop_b64 (Suc 0) [Finite 1]
     [[Finite (3602879701896397 / 36028797018963968)], [Finite (8106479329266893 / 9007199254740992)]] [Finite 1]
   = Inr [Finite (3602879701896397 / 36028797018963968)]"
  by (simp add: periodic_box_loop_b64_def periodic_box_step_b64_def fmin_def Assert_def
      tolerance_b64_value upt_small round64_eval)

lemma wrap_example_shift:
  "wrap_shift_b64 True (Suc 0) [Finite 1] [Finite (3602879701896397 / 36028797018963968)]
     [Finite (3602879701896397 / 36028797018963968)] = [Finite 0]"
  "wrap_shift_b64 True (Suc 0) [Finite 1] [Finite (3602879701896397 / 36028797018963968)]
     [Finite (8106479329266893 / 9007199254740992)] = [Finite (- 1)]"
  by (simp_all add: wrap_shift_b64_def Point_b64_def fsub_def upt_small round64_eval)

lemma periodic_wrap_b64_value:
  "FlatManifold_get_new_point_b64 DEBUG 1 [Finite 1]
   (Quadrature_b64 [[round64 (1 / 10)], [round64 (9 / 10)]] [Finite (1 / 2), Finite (1 / 2)])
   = Inr [Finite (1 / 2 ^ 56)]"
  by (simp add: FlatManifold_get_new_point_b64_def Quadrature_b64_def check_weights_b64_def
      weights_sum_b64_def fsub_def Assert_def tolerance_b64_value literal_0_1 literal_0_9 norm_b64_unit wrap_example_box wrap_example_shift
      renormalize_b64_def point_add_b64_def point_scale_b64_def Point_b64_def upt_small nth_small
      round64_eval)

lemma replicate_small:
  "replicate 4 x = [x, x, x, x]" "replicate 8 x = [x, x, x, x, x, x, x, x]"
  by (simp_all add: eval_nat_numeral)

lemma literal_0_3: "round64 (3 / 10) = Finite (5404319552844595 / 18014398509481984)"
  by (simp add: round64_eval)

lemma laplace_weights_sum: "weights_sum_b64 [Finite (1 / 16), Finite (1 / 16), Finite (1 / 16), Finite (1 / 16), Finite (3 / 16), Finite (3 / 16), Finite (3 / 16), Finite (3 / 16)] = Finite 1"
  by (simp add: weights_sum_b64_def round64_eval)

lemma single_point_box:
  "periodic_box_loop_b64 (Suc 0) [Finite 1] [[Finite (5404319552844595 / 18014398509481984)], [Finite (5404319552844595 / 18014398509481984)], [Finite (5404319552844595 / 18014398509481984)], [Finite (5404319552844595 / 18014398509481984)], [Finite (5404319552844595 / 18014398509481984)], [Finite (5404319552844595 / 18014398509481984)], [Finite (5404319552844595 / 18014398509481984)], [Finite (5404319552844595 / 18014398509481984)]] [Finite 1] = Inr [Finite (5404319552844595 / 18014398509481984)]"
  by (simp add: periodic_box_loop_b64_def periodic_box_step_b64_def fmin_def Assert_def
      tolerance_b64_value round64_eval)

lemma single_point_shift:
  "wrap_shift_b64 True (Suc 0) [Finite 1] [Finite (5404319552844595 / 18014398509481984)] [Finite (5404319552844595 / 18014398509481984)] = [Finite 0]"
  by (simp add: wrap_shift_b64_def Point_b64_def fsub_def round64_eval)

lemma single_point_b64_value:
  "FlatManifold_get_new_point_b64 DEBUG 1 [Finite 1]
   (Quadrature_b64 (replicate 8 [round64 (3 / 10)])
      (replicate 4 (Finite (1 / 16)) @ replicate 4 (Finite (3 / 16))))
   = Inr [Finite (2702159776422297 / 2 ^ 53)]"
  by (simp add: FlatManifold_get_new_point_b64_def Quadrature_b64_def check_weights_b64_def
      replicate_small laplace_weights_sum fsub_def Assert_def tolerance_b64_value literal_0_3 norm_b64_unit single_point_box single_point_shift
      renormalize_b64_def point_add_b64_def point_scale_b64_def Point_b64_def
      round64_eval)


section \<open>The generic placement algorithm\<close>

text \<open>
  C1. For a quadrature (samples and weights aligned by position; in a \<open>DEBUG\<close> build
  its weights must add up to one within the tolerance, or the check at the top of the
  function fires), \<open>Manifold::get_new_point\<close> returns \<open>project_to_manifold\<close>
  applied to the unmodified sample sequence and to the weighted centroid of the samples.
\<close>

theorem Manifold_get_new_point_centroid:
  assumes "aligned spacedim quad"
    and "DEBUG \<Longrightarrow> \<bar>sum_list (get_weights quad) - 1\<bar> < tolerance"
  shows "Manifold_get_new_point DEBUG spacedim project_to_manifold quad
           = project_to_manifold (get_points quad) (weighted_centroid spacedim quad)"
proof -
  let ?sp = "get_points quad" and ?ws = "get_weights quad"
  let ?p = "fold (\<lambda>i p. point_add p (point_scale (?sp ! i) (?ws ! i)))
              [0..<length ?sp] (Point spacedim)"
  have dims: "\<forall>i<length ?sp. length (?sp ! i) = spacedim"
    using assms(1) by (simp add: aligned_def list_all_length)
  have len: "length ?p = spacedim"
    using dims by (intro accumulate_length) (simp_all add: Point_def)
  have "?p ! d = weighted_centroid spacedim quad ! d" if "d < spacedim" for d
    using accumulate_nth [of "Point spacedim" spacedim "length ?sp" "\<lambda>i. ?sp ! i" d "\<lambda>i. ?ws ! i"]
      dims that
    by (simp add: Point_def weighted_centroid_def weighted_sum_on_axis_def)
  with len have "?p = weighted_centroid spacedim quad"
    by (intro nth_equalityI) (simp_all add: weighted_centroid_def)
  with assms(2) show ?thesis
    by (simp add: Manifold_get_new_point_def check_weights_def Assert_def weights_sum_sum_list Let_def)
qed

theorem Manifold_get_new_point_centroid_witness:
  "aligned 2 (Quadrature [[0, 0], [2, 4]] [1 / 2, 1 / 2]) \<and>
   Manifold_get_new_point True 2 FlatManifold_project_to_manifold
       (Quadrature [[0, 0], [2, 4]] [1 / 2, 1 / 2]) = Inr [1, 2]"
  using Manifold_get_new_point_centroid
    [of 2 "Quadrature [[0, 0], [2, 4]] [1 / 2, 1 / 2]" True FlatManifold_project_to_manifold]
  by (simp add: aligned_def Quadrature_def tolerance_def weighted_centroid_def
      weighted_sum_on_axis_def FlatManifold_project_to_manifold_def upt_rec)

section \<open>Averaging on a periodic flat manifold\<close>

text \<open>
  C2. On the line with period \<open>1\<close>, for the two samples \<open>0.1\<close> and \<open>0.9\<close> (the
  nearest binary64 numbers) with weights \<open>0.5\<close> each, the new point is not \<open>0.0\<close>,
  with the \<open>DEBUG\<close> checks and without.
\<close>

theorem periodic_wrap_not_zero_b64:
  "FlatManifold_get_new_point_b64 True 1 [Finite 1]
     (Quadrature_b64 [[round64 (1 / 10)], [round64 (9 / 10)]] [Finite (1 / 2), Finite (1 / 2)])
     \<noteq> Inr [Finite 0]
   \<and> FlatManifold_get_new_point_b64 False 1 [Finite 1]
     (Quadrature_b64 [[round64 (1 / 10)], [round64 (9 / 10)]] [Finite (1 / 2), Finite (1 / 2)])
     \<noteq> Inr [Finite 0]"
  using periodic_wrap_b64_value [of True] periodic_wrap_b64_value [of False] by simp

text \<open>
  C2, amended. At that input the samples are averaged across the seam and the new point
  is \<open>2\<^sup>-\<^sup>5\<^sup>6\<close>, about \<open>1.4e-17\<close>: the wrapped-around mean \<open>0.0\<close> up to one rounding
  error, closer to it than \<open>1e-16\<close>, and not \<open>0.5\<close>; with the \<open>DEBUG\<close> checks and
  without.
\<close>

theorem periodic_wrap_example_b64:
  "FlatManifold_get_new_point_b64 DEBUG 1 [Finite 1]
     (Quadrature_b64 [[round64 (1 / 10)], [round64 (9 / 10)]] [Finite (1 / 2), Finite (1 / 2)])
     = Inr [Finite (1 / 2 ^ 56)]
   \<and> \<bar>1 / 2 ^ 56 - 0\<bar> < (1 / 10 ^ 16 :: real)
   \<and> FlatManifold_get_new_point_b64 DEBUG 1 [Finite 1]
     (Quadrature_b64 [[round64 (1 / 10)], [round64 (9 / 10)]] [Finite (1 / 2), Finite (1 / 2)])
     \<noteq> Inr [Finite (1 / 2)]"
  using periodic_wrap_b64_value [of DEBUG] by simp

text \<open>
  C3. The specification wants every sample coordinate on a periodic axis inside the
  periodic box and every sample outside it refused. The loop compares a coordinate with
  the upper end of the box only: a coordinate at or above the period plus the tolerance
  is refused (\<open>FlatManifold_rejects_beyond_period\<close>), a coordinate below zero is not.
  At the input below, a single sample at \<open>-3\<close> on the line with period \<open>1\<close>, the
  function returns the point \<open>-2\<close>.
\<close>

theorem negative_coordinate_accepted:
  "FlatManifold_get_new_point DEBUG 1 [1] (Quadrature [[- 3]] [1]) = Inr [- 2]"
  by (simp add: FlatManifold_get_new_point_def check_weights_def Quadrature_def Assert_def weights_sum_def
      tolerance_def norm_point_def periodic_box_loop_def periodic_box_step_def wrap_shift_def
      renormalize_def point_add_def point_scale_def Point_def
      FlatManifold_project_to_manifold_def Let_def)

section \<open>The default quadratures\<close>

text \<open>
  C4. The quadrature of a hex has 26 aligned samples and weights: the 8 vertices with
  weight \<open>1/128\<close>, then the 12 edge samples with weight \<open>7/192\<close>, then the 6 face
  samples with weight \<open>1/12\<close>; the weights add up to one.
\<close>

theorem hex_default_quadrature:
  "get_points (get_default_quadrature_hex obj)
     = map (hex_vertex obj) [0..<8] @ map (\<lambda>i. edge_sample (hex_line obj i)) [0..<12]
         @ map (\<lambda>i. face_sample (hex_face obj i)) [0..<6]
   \<and> get_weights (get_default_quadrature_hex obj)
     = replicate 8 (1 / 128) @ replicate 12 (7 / 192) @ replicate 6 (1 / 12)
   \<and> length (get_points (get_default_quadrature_hex obj)) = 26
   \<and> length (get_weights (get_default_quadrature_hex obj)) = 26
   \<and> sum_list (get_weights (get_default_quadrature_hex obj)) = 1"
  by (simp add: get_default_quadrature_hex_unfolded Quadrature_def sum_list_replicate)

text \<open>
  C5. The template gives a line its two vertices with weight \<open>1/2\<close> each, and a
  quad its four vertices followed by its four edge samples, with weight \<open>1/8\<close>
  throughout in plain mode and \<open>1/16\<close> for the vertices, \<open>3/16\<close> for the edge
  samples in Laplace mode. In each case the weights add up to one within the tolerance.
\<close>

theorem generic_default_quadrature:
  "(\<exists>q. get_default_quadrature (line_space_dimension line) (Line line) with_laplace = Inr q
        \<and> get_points q = [line_vertex line 0, line_vertex line 1]
        \<and> get_weights q = [1 / 2, 1 / 2]
        \<and> \<bar>sum_list (get_weights q) - 1\<bar> < tolerance)
   \<and> (\<exists>q. get_default_quadrature (quad_space_dimension quad) (Quad quad) with_laplace = Inr q
        \<and> get_points q =
              [quad_vertex quad 0, quad_vertex quad 1, quad_vertex quad 2, quad_vertex quad 3]
                @ map (\<lambda>i. edge_sample (quad_line quad i)) [0..<4]
        \<and> get_weights q =
              (if with_laplace then replicate 4 (1 / 16) @ replicate 4 (3 / 16)
               else replicate 8 (1 / 8))
        \<and> \<bar>sum_list (get_weights q) - 1\<bar> < tolerance)"
  by (simp add: get_default_quadrature_def Assert_def Let_def Point_def edge_sample_def
      Quadrature_def fill_def tolerance_def eval_nat_numeral)

text \<open>
  C8. The template and the overload for a hex do not agree on the unit cube: the
  template has no branch for structure dimension 3 and ends in its \<open>default\<close>
  branch, so it returns no quadrature at all.
\<close>

theorem generic_template_differs_on_unit_hex:
  "structure_dimension (Hex unit_hex) = 3
   \<and> get_default_quadrature 3 (Hex unit_hex) False = Inl ExcInternalError
   \<and> get_default_quadrature 3 (Hex unit_hex) False \<noteq> Inr (get_default_quadrature_hex unit_hex)"
  by (simp add: get_default_quadrature_def Assert_def)

text \<open>
  C8, amended. For every hex and either weighting mode the template raises the
  internal-error violation; the quadrature of 26 samples comes from the overload for a
  cell of a three-dimensional triangulation alone, which is what
  \<open>Manifold<3,3>::get_new_point_on_hex\<close> calls.
\<close>

theorem generic_template_refuses_hex:
  "structure_dimension (Hex hex) = 3
   \<and> get_default_quadrature 3 (Hex hex) with_laplace = Inl ExcInternalError
   \<and> length (get_points (get_default_quadrature_hex hex)) = 26
   \<and> get_new_point_on_hex get_new_point 3 3 hex = get_new_point (get_default_quadrature_hex hex)"
  by (simp add: get_default_quadrature_def Assert_def get_default_quadrature_hex_unfolded
      Quadrature_def get_new_point_on_hex_def)

section \<open>Chart manifolds\<close>

text \<open>
  C6. \<open>ManifoldChart::get_new_point\<close> is \<open>push_forward\<close> after the sub-manifold's
  \<open>get_new_point\<close> on the quadrature of the pulled-back samples with the weights
  unchanged; a violation raised by the sub-manifold is passed on.
\<close>

theorem ManifoldChart_get_new_point_delegates:
  "ManifoldChart_get_new_point DEBUG chartdim pull_back push_forward periodicity quad =
    (case FlatManifold_get_new_point DEBUG chartdim periodicity
            (Quadrature (map pull_back (get_points quad)) (get_weights quad)) of
       Inl exc \<Rightarrow> Inl exc
     | Inr p_chart \<Rightarrow> Inr (push_forward p_chart))"
  using pull_back_loop [of "length (get_points quad)" "get_points quad"
      "replicate (length (get_points quad)) (Point chartdim)" pull_back]
  by (simp add: ManifoldChart_get_new_point_def Let_def)

section \<open>Degenerate quadratures and non-periodic axes\<close>

text \<open>
  C7. Eight samples at the binary64 number nearest \<open>0.3\<close>, on the line with period
  \<open>1\<close>, with the weights \<open>1/16\<close> (four times) and \<open>3/16\<close> (four times) that the quad
  quadrature has in Laplace mode: the weights add up to exactly one, also in binary64,
  and the new point is \<open>0.29999999999999993\<close>, one unit in the last place below the
  sample.
\<close>

theorem single_point_not_exact_b64:
  "weights_sum_b64 (replicate 4 (Finite (1 / 16)) @ replicate 4 (Finite (3 / 16))) = Finite 1
   \<and> FlatManifold_get_new_point_b64 True 1 [Finite 1]
       (Quadrature_b64 (replicate 8 [round64 (3 / 10)])
          (replicate 4 (Finite (1 / 16)) @ replicate 4 (Finite (3 / 16))))
     = Inr [Finite (2702159776422297 / 2 ^ 53)]
   \<and> FlatManifold_get_new_point_b64 True 1 [Finite 1]
       (Quadrature_b64 (replicate 8 [round64 (3 / 10)])
          (replicate 4 (Finite (1 / 16)) @ replicate 4 (Finite (3 / 16))))
     \<noteq> Inr [round64 (3 / 10)]"
  using single_point_b64_value [of True]
  by (simp add: replicate_small laplace_weights_sum literal_0_3)

text \<open>
  C7, amended. If every sample is the point \<open>P\<close>, the coordinates of \<open>P\<close> and the periods
  are binary64 numbers, \<open>P\<close> lies in the periodic box on every periodic axis, the
  \<open>n\<close> weights are not negative and add up to one, no product of a weight and a
  coordinate underflows and \<open>|P\<^sub>d| (1 + 2\<^sup>-\<^sup>5\<^sup>3)\<^sup>2\<^sup>n\<close> stays within the finite range (and, with
  \<open>DEBUG\<close>, the weights pass the check on their sum), then
  \<open>FlatManifold::get_new_point\<close> raises no violation and returns \<open>P\<close> up to rounding:
  each coordinate of the result differs from that of \<open>P\<close> by at most
  \<open>((1 + 2\<^sup>-\<^sup>5\<^sup>3)\<^sup>2\<^sup>n - 1) |P\<^sub>d|\<close>.
\<close>

theorem FlatManifold_single_point_b64:
  fixes P ws Ls :: "real list"
  assumes pts: "get_points_b64 quad = replicate (length ws) (map Finite P)"
    and wts: "get_weights_b64 quad = map Finite ws"
    and lenP: "length P = spacedim"
    and lenL: "length Ls = spacedim"
    and repP: "list_all binary64 P"
    and repL: "list_all binary64 Ls"
    and nonneg: "\<forall>w\<in>set ws. 0 \<le> w"
    and one: "sum_list ws = 1"
    and inside: "\<forall>d<spacedim. Ls ! d > 0 \<longrightarrow> 0 \<le> P ! d \<and> P ! d < Ls ! d"
    and normal: "\<forall>x\<in>set P. \<forall>w\<in>set ws. x * w = 0 \<or> 2 powi (- 1022) \<le> \<bar>x * w\<bar>"
    and nover: "\<forall>x\<in>set P. (1 + 1 / 2 ^ 53) ^ (2 * length ws) * \<bar>x\<bar> \<le> max_double"
    and dbg: "DEBUG \<Longrightarrow>
                fless (fabs (fsub (weights_sum_b64 (map Finite ws)) (Finite 1))) tolerance_b64"
  shows "\<exists>R. FlatManifold_get_new_point_b64 DEBUG spacedim (map Finite Ls) quad
                 = Inr (map Finite R)
            \<and> length R = spacedim
            \<and> (\<forall>d<spacedim.
                  \<bar>R ! d - P ! d\<bar> \<le> ((1 + 1 / 2 ^ 53) ^ (2 * length ws) - 1) * \<bar>P ! d\<bar>)"
proof -
  define n where "n = length ws"
  define sp where "sp = replicate n (map Finite P)"
  define per where "per = map Finite Ls"
  define cp where "cp \<longleftrightarrow> norm_b64 per \<noteq> Finite 0"
  have npos: "0 < n" using one by (auto simp: n_def)
  have sp_nth: "sp ! i = map Finite P" if "i < n" for i
    using that by (simp add: sp_def)
  have per_nth: "per ! d = Finite (Ls ! d)" if "d < spacedim" for d
    using that lenL by (simp add: per_def)
  have P_rep: "round64 (P ! d) = Finite (P ! d)" if "d < spacedim" for d
    using that repP lenP by (simp add: list_all_length binary64_def)
  have L_rep: "binary64 (Ls ! d)" if "d < spacedim" for d
    using that repL lenL by (simp add: list_all_length)
  \<comment> \<open>the first loop\<close>
  obtain minP where minP:
    "(if cp then periodic_box_loop_b64 spacedim per sp per else Inr per) = Inr minP"
    "length minP = spacedim"
    "\<forall>d<spacedim. cp \<and> Ls ! d > 0 \<longrightarrow> minP ! d = Finite (P ! d)"
  proof (cases cp)
    case True
    have "\<forall>i<n. \<forall>d<spacedim. fless (Finite 0) (per ! d) \<longrightarrow>
             fless (sp ! i ! d) (fadd (per ! d) tolerance_b64)"
      using inside lenP by (auto simp: sp_nth per_nth intro: in_box_passes_check L_rep)
    from periodic_box_outer_b64 [OF this, of per]
    obtain m' where m':
      "periodic_box_loop_b64 spacedim per sp per = Inr m'"
      "length m' = spacedim"
      "\<forall>j<spacedim. m' ! j = fold (\<lambda>i a. fmin a (sp ! i ! j)) [0..<n] (per ! j)"
      unfolding periodic_box_loop_b64_def by (auto simp: per_def lenL sp_def)
    have "m' ! d = Finite (P ! d)" if d: "d < spacedim" and pos: "Ls ! d > 0" for d
    proof -
      have "fold (\<lambda>i a. fmin a (sp ! i ! d)) [0..<n] (per ! d)
              = fold (\<lambda>i a. fmin a (Finite (P ! d))) [0..<n] (Finite (Ls ! d))"
        using d lenP by (intro fold_cong) (simp_all add: sp_nth per_nth)
      also have "\<dots> = Finite (P ! d)"
        using inside d pos npos by (intro fold_fmin_constant) simp_all
      finally show ?thesis using m'(3) d by simp
    qed
    with m'(1,2) True that show ?thesis by simp
  next
    case False
    with that show ?thesis by (simp add: per_def lenL)
  qed
  \<comment> \<open>no sample is shifted\<close>
  have shift: "wrap_shift_b64 cp spacedim per minP (map Finite P) = Point_b64 spacedim"
  proof (cases cp)
    case False
    then show ?thesis by (simp add: wrap_shift_b64_def)
  next
    case True
    let ?c = "\<lambda>d. fless (Finite 0) (per ! d)"
    let ?g = "\<lambda>d (a::double). if fless (fdiv2 (per ! d)) (fsub (map Finite P ! d) (minP ! d))
                       then fneg (per ! d) else Finite 0"
    have eq: "wrap_shift_b64 cp spacedim per minP (map Finite P)
                = fold (\<lambda>d v. if ?c d then v[d := ?g d (v ! d)] else v) [0..<spacedim]
                    (replicate spacedim (Finite 0))"
      using True by (simp add: wrap_shift_b64_def Point_b64_def)
    have len: "length (wrap_shift_b64 cp spacedim per minP (map Finite P)) = spacedim"
      unfolding eq
      using fold_update_each_length [of ?c ?g "[0..<spacedim]" "replicate spacedim (Finite 0)"]
      by simp
    show ?thesis
    proof (rule nth_equalityI)
      show "length (wrap_shift_b64 cp spacedim per minP (map Finite P))
              = length (Point_b64 spacedim)"
        using len by (simp add: Point_b64_def)
    next
      fix d assume "d < length (wrap_shift_b64 cp spacedim per minP (map Finite P))"
      then have d: "d < spacedim"
        using len by simp
      have "fold (\<lambda>d v. if ?c d then v[d := ?g d (v ! d)] else v) [0..<spacedim]
               (replicate spacedim (Finite 0)) ! d
            = (if d < spacedim \<and> ?c d then ?g d (replicate spacedim (Finite 0) ! d)
               else replicate spacedim (Finite 0) ! d)"
        using d fold_update_each_nth [of d "replicate spacedim (Finite 0)" ?c ?g spacedim]
        by simp
      also have "\<dots> = Finite 0"
      proof (cases "?c d")
        case False
        with d show ?thesis by simp
      next
        case c: True
        then have pos: "0 < Ls ! d" using d by (simp add: per_nth)
        with minP(3) True d have "minP ! d = Finite (P ! d)" by simp
        with no_wrap_at_minimum [OF pos, of "P ! d"] d lenP show ?thesis
          by (simp add: per_nth)
      qed
      finally show "wrap_shift_b64 cp spacedim per minP (map Finite P) ! d = Point_b64 spacedim ! d"
        using d by (simp add: eq Point_b64_def)
    qed
  qed
  have addzero: "point_add_b64 (map Finite P) (Point_b64 spacedim) = map Finite P"
    using lenP by (intro nth_equalityI) (simp_all add: point_add_b64_def Point_b64_def P_rep)
  \<comment> \<open>the weighted sum\<close>
  define acc where
    "acc = fold (\<lambda>i p. point_add_b64 p (point_scale_b64 (map Finite P) (Finite (ws ! i))))
             [0..<n] (Point_b64 spacedim)"
  have acc_len: "length acc = spacedim"
    unfolding acc_def point_add_b64_def
    by (intro fold_map2_length) (simp_all add: Point_b64_def point_scale_b64_def lenP)
  have loop: "fold (\<lambda>i p. let dp = wrap_shift_b64 cp spacedim per minP (sp ! i)
                           in point_add_b64 p
                                (point_scale_b64 (point_add_b64 (sp ! i) dp) (map Finite ws ! i)))
                [0..<n] (Point_b64 spacedim) = acc"
    unfolding acc_def
    by (intro fold_cong)
      (simp_all add: sp_nth shift addzero n_def Let_def)
  have coord: "\<exists>y. acc ! d = Finite y \<and> (0 \<le> P ! d \<longrightarrow> 0 \<le> y)
                 \<and> \<bar>y - P ! d\<bar> \<le> ((1 + 1 / 2 ^ 53) ^ (2 * length ws) - 1) * \<bar>P ! d\<bar>"
    if d: "d < spacedim" for d
  proof -
    have Pd: "P ! d \<in> set P" using d lenP by simp
    have "acc ! d = fold (\<lambda>i a. fadd a (point_scale_b64 (map Finite P) (Finite (ws ! i)) ! d))
                      [0..<n] (Point_b64 spacedim ! d)"
      unfolding acc_def point_add_b64_def using d
      by (intro fold_map2_nth [where n = spacedim])
        (simp_all add: Point_b64_def point_scale_b64_def lenP)
    also have "\<dots> = fold (\<lambda>i. (\<lambda>r s. fadd s (fmul (Finite (P ! d)) (Finite r))) (ws ! i))
                      [0..<length ws] (Finite 0)"
      using d lenP by (simp add: point_scale_b64_def Point_b64_def n_def)
    also have "\<dots> = fold (\<lambda>r s. fadd s (fmul (Finite (P ! d)) (Finite r))) ws (Finite 0)"
      using fold_index_list [of "\<lambda>r s. fadd s (fmul (Finite (P ! d)) (Finite r))" ws]
      by simp
    finally have acc_d:
      "acc ! d = fold (\<lambda>r s. fadd s (fmul (Finite (P ! d)) (Finite r))) ws (Finite 0)" .
    have g0: "on_grid 0" unfolding on_grid_def by (intro exI [of _ 0]) simp
    have e0: "\<bar>0 - P ! d * 0\<bar> \<le> ((1 + 1 / 2 ^ 53) ^ (2 * 0) - 1) * (\<bar>P ! d\<bar> * 0)" by simp
    have nrm: "\<forall>r\<in>set ws. P ! d * r = 0 \<or> 2 powi (- 1022) \<le> \<bar>P ! d * r\<bar>"
      using normal Pd by blast
    have ov: "(1 + 1 / 2 ^ 53) ^ (2 * (0 + length ws)) * (\<bar>P ! d\<bar> * (0 + sum_list ws)) \<le> max_double"
      using nover Pd by (simp only: one) simp
    from accumulate_b64_bound [OF nonneg nrm g0 e0 _ _ ov]
    obtain y' where
      "fold (\<lambda>r s. fadd s (fmul (Finite (P ! d)) (Finite r))) ws (Finite 0) = Finite y'"
      "0 \<le> P ! d \<longrightarrow> 0 \<le> y'"
      "\<bar>y' - P ! d * (0 + sum_list ws)\<bar>
         \<le> ((1 + 1 / 2 ^ 53) ^ (2 * (0 + length ws)) - 1) * (\<bar>P ! d\<bar> * (0 + sum_list ws))"
      by auto
    then show ?thesis
      using acc_d by (intro exI [of _ y']) (simp add: one)
  qed
  \<comment> \<open>no coordinate is moved up by a period\<close>
  have renorm: "renormalize_b64 cp spacedim per acc = acc"
  proof (cases cp)
    case False
    then show ?thesis by (simp add: renormalize_b64_def)
  next
    case True
    let ?c = "\<lambda>d. fless (Finite 0) (per ! d)"
    let ?g = "\<lambda>d a. if fless a (Finite 0) then fadd a (per ! d) else a"
    have eq: "renormalize_b64 cp spacedim per acc
                = fold (\<lambda>d v. if ?c d then v[d := ?g d (v ! d)] else v) [0..<spacedim] acc"
      using True by (simp add: renormalize_b64_def)
    have len: "length (renormalize_b64 cp spacedim per acc) = length acc"
      unfolding eq using fold_update_each_length [of ?c ?g "[0..<spacedim]" acc] by simp
    show ?thesis
    proof (rule nth_equalityI)
      show "length (renormalize_b64 cp spacedim per acc) = length acc"
        by (rule len)
    next
      fix d assume "d < length (renormalize_b64 cp spacedim per acc)"
      then have d: "d < spacedim"
        using len acc_len by simp
      have "fold (\<lambda>d v. if ?c d then v[d := ?g d (v ! d)] else v) [0..<spacedim] acc ! d
            = (if d < spacedim \<and> ?c d then ?g d (acc ! d) else acc ! d)"
        using d acc_len fold_update_each_nth [of d acc ?c ?g spacedim] by simp
      also have "\<dots> = acc ! d"
      proof (cases "?c d")
        case False
        then show ?thesis by simp
      next
        case c: True
        then have "0 < Ls ! d" using d by (simp add: per_nth)
        with inside d have "0 \<le> P ! d" by simp
        with coord [OF d] obtain y where "acc ! d = Finite y" "0 \<le> y" by auto
        then show ?thesis by simp
      qed
      finally show "renormalize_b64 cp spacedim per acc ! d = acc ! d"
        by (simp only: eq)
    qed
  qed
  \<comment> \<open>the result\<close>
  have lensp: "length sp = n" by (simp add: sp_def)
  have result: "FlatManifold_get_new_point_b64 DEBUG spacedim (map Finite Ls) quad = Inr acc"
    using dbg minP(1) loop renorm lensp
    by (simp add: FlatManifold_get_new_point_b64_def check_weights_b64_def Assert_def pts wts
        sp_def [symmetric] per_def [symmetric] cp_def [symmetric] n_def [symmetric] Let_def)
  from coord have "\<forall>d\<in>{..<spacedim}. \<exists>y. acc ! d = Finite y
      \<and> \<bar>y - P ! d\<bar> \<le> ((1 + 1 / 2 ^ 53) ^ (2 * length ws) - 1) * \<bar>P ! d\<bar>"
    by blast
  then obtain f where f: "\<forall>d\<in>{..<spacedim}. acc ! d = Finite (f d)
      \<and> \<bar>f d - P ! d\<bar> \<le> ((1 + 1 / 2 ^ 53) ^ (2 * length ws) - 1) * \<bar>P ! d\<bar>"
    by (rule bchoice [THEN exE])
  have "acc = map Finite (map f [0..<spacedim])"
    using acc_len f by (intro nth_equalityI) simp_all
  with result f show ?thesis
    by (intro exI [of _ "map f [0..<spacedim]"]) simp
qed

theorem FlatManifold_single_point_b64_witness:
  "\<exists>R. FlatManifold_get_new_point_b64 True 1 [Finite 1]
          (Quadrature_b64 (replicate 8 [Finite (5404319552844595 / 18014398509481984)])
             (map Finite [1 / 16, 1 / 16, 1 / 16, 1 / 16, 3 / 16, 3 / 16, 3 / 16, 3 / 16]))
        = Inr (map Finite R)
      \<and> length R = 1
      \<and> \<bar>R ! 0 - 5404319552844595 / 18014398509481984\<bar> \<le> ((1 + 1 / 2 ^ 53) ^ 16 - 1) * \<bar>5404319552844595 / 18014398509481984\<bar>"
proof -
  let ?ws = "[1 / 16, 1 / 16, 1 / 16, 1 / 16, 3 / 16, 3 / 16, 3 / 16, 3 / 16] :: real list"
  let ?P = "[5404319552844595 / 18014398509481984] :: real list"
  let ?quad = "Quadrature_b64 (replicate 8 [Finite (5404319552844595 / 18014398509481984)]) (map Finite ?ws)"
  have pts: "get_points_b64 ?quad = replicate (length ?ws) (map Finite ?P)"
    by (simp add: Quadrature_b64_def replicate_small)
  have wts: "get_weights_b64 ?quad = map Finite ?ws"
    by (simp add: Quadrature_b64_def)
  have repP: "list_all binary64 ?P"
    by (simp add: binary64_def round64_eval)
  have repL: "list_all binary64 [1]"
    by (simp add: binary64_def round64_eval)
  have nonneg: "\<forall>w\<in>set ?ws. 0 \<le> w" by simp
  have one: "sum_list ?ws = 1" by simp
  have inside: "\<forall>d<1. [1 :: real] ! d > 0 \<longrightarrow> 0 \<le> ?P ! d \<and> ?P ! d < [1] ! d"
    by simp
  have normal: "\<forall>x\<in>set ?P. \<forall>w\<in>set ?ws. x * w = 0 \<or> 2 powi (- 1022) \<le> \<bar>x * w\<bar>"
    by simp
  have nover: "\<forall>x\<in>set ?P. (1 + 1 / 2 ^ 53) ^ (2 * length ?ws) * \<bar>x\<bar> \<le> max_double"
  proof -
    have "(1 + 1 / 2 ^ 53 :: real) ^ (2 * length ?ws) \<le> 2 ^ (2 * length ?ws)"
      by (intro power_mono) simp_all
    moreover have "\<bar>5404319552844595 / 18014398509481984 :: real\<bar> \<le> 1" by simp
    ultimately have "(1 + 1 / 2 ^ 53) ^ (2 * length ?ws) * \<bar>5404319552844595 / 18014398509481984 :: real\<bar>
                       \<le> 2 ^ (2 * length ?ws) * 1"
      by (intro mult_mono) simp_all
    also have "\<dots> \<le> max_double" by (simp add: max_double_def)
    finally show ?thesis by simp
  qed
  have dbg: "fless (fabs (fsub (weights_sum_b64 (map Finite ?ws)) (Finite 1))) tolerance_b64"
    by (simp add: laplace_weights_sum fsub_def round64_zero tolerance_b64_value)
  from FlatManifold_single_point_b64
    [of ?quad ?ws ?P 1 "[1]" True, OF pts wts _ _ repP repL nonneg one inside normal nover dbg]
  show ?thesis by simp
qed

text \<open>
  C10. If no sample is refused by the periodic check, then on an axis whose
  periodicity entry is zero the new point has the plain weighted sum of the samples as
  its coordinate, whatever happens on the other axes. The hypothesis is the check the
  code makes, which the periodic box of the specification implies.
\<close>

theorem FlatManifold_nonperiodic_axis:
  assumes "aligned spacedim quad"
    and "length periodicity = spacedim"
    and "DEBUG \<Longrightarrow> \<bar>sum_list (get_weights quad) - 1\<bar> < tolerance"
    and "passes_periodic_check spacedim periodicity (get_points quad)"
    and "d < spacedim"
    and "periodicity ! d = 0"
  shows "\<exists>p. FlatManifold_get_new_point DEBUG spacedim periodicity quad = Inr p
            \<and> p ! d = weighted_sum_on_axis quad d"
proof -
  from FlatManifold_get_new_point_value [OF assms(1-3) passes_periodic_checkD [OF assms(4)]]
  obtain p minP where
    p: "FlatManifold_get_new_point DEBUG spacedim periodicity quad = Inr p"
    and coord: "\<forall>d<spacedim. p ! d =
         (let s = sum_list (map (\<lambda>i. get_weights quad ! i *
                     (get_points quad ! i ! d +
                       (if norm_point periodicity \<noteq> 0 \<and> periodicity ! d > 0
                           \<and> get_points quad ! i ! d - minP ! d > periodicity ! d / 2
                        then - (periodicity ! d) else 0)))
                   [0..<length (get_points quad)])
          in if norm_point periodicity \<noteq> 0 \<and> periodicity ! d > 0 \<and> s < 0
             then s + periodicity ! d else s)"
    by blast
  from coord assms(5,6) have "p ! d = weighted_sum_on_axis quad d"
    by (simp add: weighted_sum_on_axis_def)
  with p show ?thesis by blast
qed

theorem FlatManifold_nonperiodic_axis_witness:
  "aligned 2 (Quadrature [[1 / 10, 2], [9 / 10, 4]] [1 / 2, 1 / 2])
   \<and> passes_periodic_check 2 [1, 0] [[1 / 10, 2], [9 / 10, 4]]
   \<and> weighted_sum_on_axis (Quadrature [[1 / 10, 2], [9 / 10, 4]] [1 / 2, 1 / 2]) 1 = 3
   \<and> (\<exists>p. FlatManifold_get_new_point True 2 [1, 0]
               (Quadrature [[1 / 10, 2], [9 / 10, 4]] [1 / 2, 1 / 2]) = Inr p
          \<and> p ! 1 = 3)"
proof -
  let ?quad = "Quadrature [[1 / 10, 2], [9 / 10, 4]] [1 / 2, 1 / 2]"
  have al: "aligned 2 ?quad"
    by (simp add: aligned_def Quadrature_def)
  have sum: "\<bar>sum_list (get_weights ?quad) - 1\<bar> < tolerance"
    by (simp add: Quadrature_def tolerance_def)
  have box: "passes_periodic_check 2 [1, 0] (get_points ?quad)"
    by (simp add: passes_periodic_check_def Quadrature_def tolerance_def eval_nat_numeral)
  have ws: "weighted_sum_on_axis ?quad 1 = 3"
    by (simp add: weighted_sum_on_axis_def Quadrature_def eval_nat_numeral)
  from FlatManifold_nonperiodic_axis [of 2 ?quad "[1, 0]" True 1, OF al _ sum box]
  have "\<exists>p. FlatManifold_get_new_point True 2 [1, 0] ?quad = Inr p
            \<and> p ! 1 = weighted_sum_on_axis ?quad 1"
    by simp
  with al box ws show ?thesis
    by (simp add: Quadrature_def)
qed

section \<open>Queries that a dimension excludes\<close>

text \<open>
  C9. On a manifold of dimension one the face query and the quad query end in the
  violation \<open>ExcImpossibleInDim (1)\<close>, and the hex query ends in
  \<open>ExcImpossibleInDim (dim)\<close> on every manifold whose dimension is not three; none of
  them returns a point. The quad query is specialised for the space dimensions one, two
  and three.
\<close>

theorem impossible_in_dim:
  "get_new_point_on_face get_new_point 1 spacedim face = Inl (ExcImpossibleInDim 1)
   \<and> (spacedim \<in> {1, 2, 3} \<longrightarrow>
        get_new_point_on_quad get_new_point 1 spacedim quad = Inl (ExcImpossibleInDim 1))
   \<and> (dim' \<noteq> 3 \<longrightarrow>
        get_new_point_on_hex get_new_point dim' spacedim hex = Inl (ExcImpossibleInDim dim'))"
  by (simp add: get_new_point_on_face_def get_new_point_on_quad_def get_new_point_on_hex_def
      Assert_def)

theorem impossible_in_dim_witness:
  "get_new_point_on_face (FlatManifold_get_new_point True 2 [0, 0]) 1 2 (Vertex [0, 0])
     = Inl (ExcImpossibleInDim 1)
   \<and> get_new_point_on_quad (FlatManifold_get_new_point True 2 [0, 0]) 1 2
       (quadrilateral [0, 0] [1, 0] [0, 1] [1, 1]) = Inl (ExcImpossibleInDim 1)
   \<and> get_new_point_on_hex (FlatManifold_get_new_point True 2 [0, 0]) 2 2 unit_hex
     = Inl (ExcImpossibleInDim 2)"
  using impossible_in_dim [of "FlatManifold_get_new_point True 2 [0, 0]" 2 "Vertex [0, 0]"
      "quadrilateral [0, 0] [1, 0] [0, 1] [1, 1]" 2 unit_hex]
  by simp

end
